theory Spec2Isabelle
  imports Main "HOL-Library.Word"
begin

section \<open>Values and dictionaries\<close>

text \<open>
  The documents handled by plotstyle are trees as \<^verbatim>\<open>yaml.safe_load\<close> builds them, plus the
  \<^verbatim>\<open>_TaggedValue\<close> wrapper that the two custom tags construct and the tuples a caller can
  pass in a \<^verbatim>\<open>yaml_dict\<close>. Dictionary keys are strings. A floating-point number
  is its 64-bit pattern; the interpreter's arithmetic on floats is supplied by the environment
  below. \<open>VLambda\<close> is the function object \<^verbatim>\<open>eval\<close> builds from a lambda string.
\<close>

datatype pyfloat = Float64 "64 word"

datatype FieldIntent = IMPLICIT | EXPLICIT

datatype pyval =
    VNone
  | VBool bool
  | VInt int
  | VFloat pyfloat
  | VStr string
  | VList "pyval list"
  | VTuple "pyval list"
  | VDict "(string \<times> pyval) list"
  | VTagged FieldIntent pyval
  | VLambda string

type_synonym pydict = "(string \<times> pyval) list"

text \<open>
  A Python \<^verbatim>\<open>dict\<close> keeps insertion order and unique keys: assigning to a key that exists
  keeps its position, a new key goes to the end.
\<close>

fun dict_set :: "string \<Rightarrow> 'v \<Rightarrow> (string \<times> 'v) list \<Rightarrow> (string \<times> 'v) list" where
  "dict_set k v [] = [(k, v)]"
| "dict_set k v ((k', v') # d) =
     (if k = k' then (k, v) # d else (k', v') # dict_set k v d)"

text \<open>\<^verbatim>\<open>d.update(e)\<close>, and \<^verbatim>\<open>d | e\<close> (a copy of \<^verbatim>\<open>d\<close> updated with \<^verbatim>\<open>e\<close>: on a clash \<^verbatim>\<open>e\<close> wins).\<close>

definition dict_update :: "(string \<times> 'v) list \<Rightarrow> (string \<times> 'v) list \<Rightarrow> (string \<times> 'v) list" where
  "dict_update d e = foldl (\<lambda>acc kv. dict_set (fst kv) (snd kv) acc) d e"

definition dict_union :: "(string \<times> 'v) list \<Rightarrow> (string \<times> 'v) list \<Rightarrow> (string \<times> 'v) list" where
  "dict_union d e = dict_update d e"

definition dict_del :: "string \<Rightarrow> (string \<times> 'v) list \<Rightarrow> (string \<times> 'v) list" where
  "dict_del k d = filter (\<lambda>kv. fst kv \<noteq> k) d"

definition dict_has :: "string \<Rightarrow> (string \<times> 'v) list \<Rightarrow> bool" where
  "dict_has k d = (map_of d k \<noteq> None)"

datatype error =
    ValueError
  | TypeError
  | OverflowError
  | KeyError
  | IndexError
  | AttributeError
  | AssertionError
  | RecursionError
  | SourceFieldMissing
  | InvalidSourceType
  | UnkownValidator
  | FileNotFoundError
  | YAMLError
  | OtherError
  | ParseError error

text \<open>What \<^verbatim>\<open>hash(v)\<close> accepts: lists and dictionaries are unhashable, a tuple is hashable when
  its elements are, an instance of a plain class hashes by identity.\<close>

fun hashable :: "pyval \<Rightarrow> bool" where
  "hashable (VList xs) = False"
| "hashable (VDict d) = False"
| "hashable (VTuple xs) = list_all hashable xs"
| "hashable v = True"

text \<open>\<^verbatim>\<open>d[k]\<close> on a dictionary with string keys, for any key value \<^verbatim>\<open>k\<close>.\<close>

definition dict_getitem :: "pydict \<Rightarrow> pyval \<Rightarrow> error + pyval" where
  "dict_getitem d k =
     (if \<not> hashable k then Inl TypeError
      else case k of
        VStr s \<Rightarrow> (case map_of d s of None \<Rightarrow> Inl KeyError | Some v \<Rightarrow> Inr v)
      | _ \<Rightarrow> Inl KeyError)"


section \<open>The environment: file system, interpreter builtins, third-party libraries\<close>

text \<open>
  The code reaches outside the repository through the calls collected here. Each field is the
  result of one such call as a function of its arguments; the repository's own logic around
  the call is modelled below, on top of these fields.
\<close>

record env =
  resolve_yaml_path :: "pyval \<Rightarrow> pyval \<Rightarrow> error + string"
    \<comment> \<open>\<^verbatim>\<open>_resolve_yaml_path(filename, configs_folder)\<close>, which consists of \<^verbatim>\<open>os\<close> and \<^verbatim>\<open>os.path\<close>
        calls: the path it returns, or the exception it raises\<close>
  yaml_file_ok :: "string \<Rightarrow> error + bool"
    \<comment> \<open>\<^verbatim>\<open>os.path.isfile(value)\<close> and the trial \<^verbatim>\<open>yaml.safe_load\<close> of \<^verbatim>\<open>YamlValidator.validate\<close>\<close>
  normpath :: "string \<Rightarrow> string"
  isabs :: "string \<Rightarrow> bool"
  safe_load :: "string \<Rightarrow> error + pyval"
    \<comment> \<open>\<^verbatim>\<open>open(path)\<close> and \<^verbatim>\<open>yaml.safe_load(f)\<close> in \<^verbatim>\<open>_load_yaml\<close>\<close>
  pathstr_ok :: "string \<Rightarrow> bool"
    \<comment> \<open>\<^verbatim>\<open>PathstrValidator.validate\<close> on a \<^verbatim>\<open>str\<close> (\<^verbatim>\<open>strip\<close>, \<^verbatim>\<open>os.path.normpath\<close>, the segment
        checks)\<close>
  supported_filetypes :: "string list"
    \<comment> \<open>the keys of \<^verbatim>\<open>FigureCanvasAgg(Figure()).get_supported_filetypes()\<close>\<close>
  is_color_like :: "pyval \<Rightarrow> error + bool"
  findfont_ok :: "pyval \<Rightarrow> bool"
    \<comment> \<open>whether \<^verbatim>\<open>FontProperties(family=value)\<close> and \<^verbatim>\<open>findfont\<close> return without an exception\<close>
  float_of_int :: "int \<Rightarrow> error + pyfloat"
  float_of_str :: "string \<Rightarrow> error + pyfloat"
  int_of_str :: "string \<Rightarrow> error + int"
  int_of_float :: "pyfloat \<Rightarrow> error + int"
  float_gt0 :: "pyfloat \<Rightarrow> bool"
  float_ge0 :: "pyfloat \<Rightarrow> bool"
  float_le0 :: "pyfloat \<Rightarrow> bool"
  float_add :: "pyval \<Rightarrow> pyval \<Rightarrow> error + pyval"
    \<comment> \<open>\<^verbatim>\<open>a + b\<close> for two numbers of which at least one is a float\<close>
  builtin_eval :: "string \<Rightarrow> error + pyval"
    \<comment> \<open>\<^verbatim>\<open>eval(value, {"__builtins__": {}}, {})\<close> on a string\<close>
  figsize_lambda_ok :: "string \<Rightarrow> bool"
    \<comment> \<open>whether \<^verbatim>\<open>_check_lambda_str\<close> returns on this string\<close>
  figsize_numeric_tuple_ok :: "string \<Rightarrow> bool"
    \<comment> \<open>whether \<^verbatim>\<open>_check_numeric_tuple_from_str\<close> returns on this string\<close>
  builtin_dict :: "pyval \<Rightarrow> error + pydict"
    \<comment> \<open>\<^verbatim>\<open>dict(x)\<close> for an \<^verbatim>\<open>x\<close> that is not a dictionary\<close>
  parse_format :: "string \<Rightarrow> (string \<times> string) option"
    \<comment> \<open>\<^verbatim>\<open>parse("{key}__{affix}__", s)\<close> of the \<^verbatim>\<open>parse\<close> library: the two fields, or no match\<close>

definition bindE :: "error + 'a \<Rightarrow> ('a \<Rightarrow> error + 'b) \<Rightarrow> error + 'b" where
  "bindE m f = (case m of Inl e \<Rightarrow> Inl e | Inr x \<Rightarrow> f x)"

section \<open>State: the parse context and the warnings issued\<close>

datatype warning =
    IgnoreField string error
      \<comment> \<open>\<^verbatim>\<open>IGNORE_FIELD_MSG\<close> with its \<^verbatim>\<open>key\<close> and \<^verbatim>\<open>error\<close>\<close>
  | LooksExplicit string
      \<comment> \<open>the \<^verbatim>\<open>UserWarning\<close> of \<^verbatim>\<open>normalize_prop\<close>, with the field's key\<close>

record ParseContext =
  explicitly_kept :: "string set"
  explicitly_deleted :: "string set"
  marked_for_delete :: "string set"
  field_props :: "(string \<times> pydict) list"
  affix :: pydict
  file_stack :: "pyval list"

definition new_ParseContext :: ParseContext where
  "new_ParseContext =
     \<lparr>explicitly_kept = {}, explicitly_deleted = {}, marked_for_delete = {},
      field_props = [], affix = [], file_stack = []\<rparr>"

text \<open>The mutable state a resolution works on: the context object and the calls of
  \<^verbatim>\<open>warnings.warn\<close> made so far, oldest first.\<close>

record world =
  ctx :: ParseContext
  warned :: "warning list"

type_synonym 'a M = "world \<Rightarrow> (error + 'a) \<times> world"

definition retM :: "'a \<Rightarrow> 'a M" where
  "retM x = (\<lambda>w. (Inr x, w))"

definition raiseM :: "error \<Rightarrow> 'a M" where
  "raiseM e = (\<lambda>w. (Inl e, w))"

definition liftM :: "error + 'a \<Rightarrow> 'a M" where
  "liftM r = (\<lambda>w. (r, w))"

definition bindM :: "'a M \<Rightarrow> ('a \<Rightarrow> 'b M) \<Rightarrow> 'b M" where
  "bindM m f = (\<lambda>w. case m w of (Inl e, w') \<Rightarrow> (Inl e, w') | (Inr x, w') \<Rightarrow> f x w')"

definition warn :: "warning \<Rightarrow> world \<Rightarrow> world" where
  "warn msg w = w\<lparr>warned := warned w @ [msg]\<rparr>"


section \<open>Validators (plotstyle\_validators)\<close>

text \<open>
  \<open>validate\<close> returns its boolean or the exception that escapes it; \<open>parse\<close> and \<open>sanitize\<close>
  return their value or the exception. The three composite validators call back into the
  engine through \<^verbatim>\<open>context['field_parser']\<close>, so they run in the state monad and take the
  callback as an argument.
\<close>

definition PathstrValidator_validate :: "env \<Rightarrow> pyval \<Rightarrow> bool" where
  "PathstrValidator_validate E v = (case v of VStr s \<Rightarrow> pathstr_ok E s | _ \<Rightarrow> False)"

definition PathstrValidator_parse :: "env \<Rightarrow> pyval \<Rightarrow> error + pyval" where
  "PathstrValidator_parse E v = (if \<not> PathstrValidator_validate E v then Inl ValueError else Inr v)"

definition FilenameValidator_validate :: "env \<Rightarrow> pyval \<Rightarrow> bool" where
  "FilenameValidator_validate E v = PathstrValidator_validate E v"

definition FilenameValidator_parse :: "env \<Rightarrow> pyval \<Rightarrow> error + pyval" where
  "FilenameValidator_parse E v = (if \<not> FilenameValidator_validate E v then Inl ValueError else Inr v)"

definition YamlValidator_validate :: "env \<Rightarrow> pyval \<Rightarrow> error + bool" where
  "YamlValidator_validate E v =
     (if \<not> PathstrValidator_validate E v then Inr False
      else case v of VStr s \<Rightarrow> yaml_file_ok E s | _ \<Rightarrow> Inr False)"

definition YamlValidator_parse :: "env \<Rightarrow> pyval \<Rightarrow> error + pyval" where
  "YamlValidator_parse E v =
     bindE (YamlValidator_validate E v) (\<lambda>ok.
       if \<not> ok then Inl ValueError
       else case v of VStr s \<Rightarrow> Inr (VStr (normpath E s)) | _ \<Rightarrow> Inl TypeError)"

text \<open>\<^verbatim>\<open>value in d\<close> for a dictionary \<^verbatim>\<open>d\<close> hashes \<^verbatim>\<open>value\<close> first.\<close>

definition FileformatValidator_validate :: "env \<Rightarrow> pyval \<Rightarrow> error + bool" where
  "FileformatValidator_validate E v =
     (if \<not> hashable v then Inl TypeError
      else Inr (case v of VStr s \<Rightarrow> s \<in> set (supported_filetypes E) | _ \<Rightarrow> False))"

definition FileformatValidator_parse :: "env \<Rightarrow> pyval \<Rightarrow> error + pyval" where
  "FileformatValidator_parse E v =
     bindE (FileformatValidator_validate E v) (\<lambda>ok. if \<not> ok then Inl ValueError else Inr v)"

definition FileformatValidator_sanitize :: "env \<Rightarrow> pyval \<Rightarrow> error + pyval" where
  "FileformatValidator_sanitize E v =
     bindE (FileformatValidator_validate E v) (\<lambda>ok. if \<not> ok then Inr VNone else Inr v)"

definition is_str :: "pyval \<Rightarrow> bool" where
  "is_str v = (case v of VStr s \<Rightarrow> True | _ \<Rightarrow> False)"

definition StrValidator_validate :: "pyval \<Rightarrow> bool" where
  "StrValidator_validate v =
     (case v of VDict d \<Rightarrow> list_all (\<lambda>kv. is_str (snd kv)) d | _ \<Rightarrow> is_str v)"

definition StrValidator_parse :: "pyval \<Rightarrow> error + pyval" where
  "StrValidator_parse v = (if \<not> StrValidator_validate v then Inl ValueError else Inr v)"

definition BoolValidator_validate :: "pyval \<Rightarrow> bool" where
  "BoolValidator_validate v = (case v of VBool b \<Rightarrow> True | _ \<Rightarrow> False)"

definition BoolValidator_parse :: "pyval \<Rightarrow> error + pyval" where
  "BoolValidator_parse v = (if \<not> BoolValidator_validate v then Inl ValueError else Inr v)"

definition ColorValidator_validate :: "env \<Rightarrow> pyval \<Rightarrow> error + bool" where
  "ColorValidator_validate E v = is_color_like E v"

definition ColorValidator_parse :: "env \<Rightarrow> pyval \<Rightarrow> error + pyval" where
  "ColorValidator_parse E v =
     bindE (ColorValidator_validate E v) (\<lambda>ok. if \<not> ok then Inl ValueError else Inr v)"

text \<open>The builtins \<^verbatim>\<open>float(value)\<close> and \<^verbatim>\<open>int(value)\<close>.\<close>

definition builtin_float :: "env \<Rightarrow> pyval \<Rightarrow> error + pyfloat" where
  "builtin_float E v =
     (case v of
        VFloat f \<Rightarrow> Inr f
      | VInt n \<Rightarrow> float_of_int E n
      | VBool b \<Rightarrow> float_of_int E (if b then 1 else 0)
      | VStr s \<Rightarrow> float_of_str E s
      | _ \<Rightarrow> Inl TypeError)"

definition builtin_int :: "env \<Rightarrow> pyval \<Rightarrow> error + int" where
  "builtin_int E v =
     (case v of
        VInt n \<Rightarrow> Inr n
      | VBool b \<Rightarrow> Inr (if b then 1 else 0)
      | VFloat f \<Rightarrow> int_of_float E f
      | VStr s \<Rightarrow> int_of_str E s
      | _ \<Rightarrow> Inl TypeError)"

text \<open>\<^verbatim>\<open>try: conv(value); return True  except (TypeError, ValueError): return False\<close>\<close>

definition converts :: "error + 'a \<Rightarrow> error + bool" where
  "converts r =
     (case r of
        Inr x \<Rightarrow> Inr True
      | Inl e \<Rightarrow> if e = TypeError \<or> e = ValueError then Inr False else Inl e)"

definition FloatValidator_validate :: "env \<Rightarrow> pyval \<Rightarrow> error + bool" where
  "FloatValidator_validate E v =
     (case v of VBool b \<Rightarrow> Inr False | _ \<Rightarrow> converts (builtin_float E v))"

definition FloatValidator_parse :: "env \<Rightarrow> pyval \<Rightarrow> error + pyval" where
  "FloatValidator_parse E v =
     bindE (FloatValidator_validate E v) (\<lambda>ok.
       if \<not> ok then Inl ValueError
       else bindE (builtin_float E v) (\<lambda>f. Inr (VFloat f)))"

definition IntValidator_validate :: "env \<Rightarrow> pyval \<Rightarrow> error + bool" where
  "IntValidator_validate E v =
     (case v of VBool b \<Rightarrow> Inr False | _ \<Rightarrow> converts (builtin_int E v))"

definition IntValidator_parse :: "env \<Rightarrow> pyval \<Rightarrow> error + pyval" where
  "IntValidator_parse E v =
     bindE (IntValidator_validate E v) (\<lambda>ok.
       if \<not> ok then Inl ValueError
       else bindE (builtin_int E v) (\<lambda>n. Inr (VInt n)))"

definition UndeterminedValidator_parse :: "pyval \<Rightarrow> error + pyval" where
  "UndeterminedValidator_parse v = Inr v"

definition FontfamilyValidator_validate :: "env \<Rightarrow> pyval \<Rightarrow> bool" where
  "FontfamilyValidator_validate E v = findfont_ok E v"

definition FontfamilyValidator_parse :: "env \<Rightarrow> pyval \<Rightarrow> error + pyval" where
  "FontfamilyValidator_parse E v = (if \<not> FontfamilyValidator_validate E v then Inl ValueError else Inr v)"

definition FontsizeValidator_validate :: "env \<Rightarrow> pyval \<Rightarrow> bool" where
  "FontsizeValidator_validate E v =
     (case v of
        VInt n \<Rightarrow> n > 0
      | VBool b \<Rightarrow> b
      | VFloat f \<Rightarrow> float_gt0 E f
      | VStr s \<Rightarrow> s \<in> set [''xx-small'', ''x-small'', ''small'', ''medium'', ''large'',
                              ''x-large'', ''xx-large'']
      | _ \<Rightarrow> v = VNone)"

definition FontsizeValidator_parse :: "env \<Rightarrow> pyval \<Rightarrow> error + pyval" where
  "FontsizeValidator_parse E v = (if \<not> FontsizeValidator_validate E v then Inl ValueError else Inr v)"

definition LinewidthValidator_validate :: "env \<Rightarrow> pyval \<Rightarrow> bool" where
  "LinewidthValidator_validate E v =
     (case v of
        VInt n \<Rightarrow> n \<ge> 0
      | VBool b \<Rightarrow> True
      | VFloat f \<Rightarrow> float_ge0 E f
      | _ \<Rightarrow> v = VNone)"

definition LinewidthValidator_parse :: "env \<Rightarrow> pyval \<Rightarrow> error + pyval" where
  "LinewidthValidator_parse E v = (if \<not> LinewidthValidator_validate E v then Inl ValueError else Inr v)"

subsection \<open>figsize\<close>

definition safe_eval :: "env \<Rightarrow> pyval \<Rightarrow> error + pyval" where
  "safe_eval E v = (case v of VStr s \<Rightarrow> builtin_eval E s | _ \<Rightarrow> Inl TypeError)"

text \<open>\<^verbatim>\<open>_check_literal_tuple\<close>: \<open>True\<close> when it returns, \<open>False\<close> when it raises.\<close>

definition positive_dim :: "env \<Rightarrow> pyval \<Rightarrow> bool" where
  "positive_dim E dim =
     (case dim of
        VInt n \<Rightarrow> \<not> n \<le> 0
      | VBool b \<Rightarrow> b
      | VFloat f \<Rightarrow> \<not> float_le0 E f
      | _ \<Rightarrow> False)"

definition check_literal_tuple :: "env \<Rightarrow> pyval \<Rightarrow> bool" where
  "check_literal_tuple E v =
     (case v of
        VTuple xs \<Rightarrow> length xs = 2 \<and> list_all (positive_dim E) xs
      | _ \<Rightarrow> False)"

definition FigsizeValidator_validate :: "env \<Rightarrow> pyval \<Rightarrow> bool" where
  "FigsizeValidator_validate E v =
     (case v of
        VStr s \<Rightarrow> figsize_lambda_ok E s \<or> figsize_numeric_tuple_ok E s
      | _ \<Rightarrow> check_literal_tuple E v)"

definition FigsizeValidator_parse :: "env \<Rightarrow> pyval \<Rightarrow> error + pyval" where
  "FigsizeValidator_parse E v =
     (if \<not> FigsizeValidator_validate E v then Inl ValueError
      else case v of
        VStr s \<Rightarrow> safe_eval E v
      | VTuple xs \<Rightarrow> Inr v
      | _ \<Rightarrow> Inr VNone)"

definition FigsizeValidator_sanitize :: "env \<Rightarrow> pyval \<Rightarrow> error + pyval" where
  "FigsizeValidator_sanitize E v =
     (if \<not> FigsizeValidator_validate E v then Inr VNone else safe_eval E v)"

subsection \<open>Composite validators\<close>

text \<open>\<^verbatim>\<open>d[key]\<close> for a string key.\<close>

definition dict_get :: "pydict \<Rightarrow> string \<Rightarrow> error + pyval" where
  "dict_get d k = (case map_of d k of None \<Rightarrow> Inl KeyError | Some v \<Rightarrow> Inr v)"

type_synonym field_parser = "pyval \<Rightarrow> pydict M"

text \<open>The loop of \<^verbatim>\<open>DictValidator.validate\<close>, inside its \<^verbatim>\<open>try\<close>: the first exception of the
  callback ends it with \<^verbatim>\<open>False\<close>.\<close>

fun DictValidator_validate_items :: "field_parser \<Rightarrow> pydict \<Rightarrow> bool M" where
  "DictValidator_validate_items fp [] = retM True"
| "DictValidator_validate_items fp ((key, subprop) # rest) =
     (\<lambda>w. case fp (VDict [(key, subprop)]) w of
        (Inl e, w') \<Rightarrow> (Inr False, w')
      | (Inr r, w') \<Rightarrow> DictValidator_validate_items fp rest w')"

definition DictValidator_validate :: "field_parser \<Rightarrow> pyval \<Rightarrow> bool M" where
  "DictValidator_validate fp v =
     (case v of VDict d \<Rightarrow> DictValidator_validate_items fp d | _ \<Rightarrow> retM False)"

fun DictValidator_parse_items :: "field_parser \<Rightarrow> pydict \<Rightarrow> pydict \<Rightarrow> pydict M" where
  "DictValidator_parse_items fp [] parsed = retM parsed"
| "DictValidator_parse_items fp ((key, subprop) # rest) parsed =
     bindM (fp (VDict [(key, subprop)])) (\<lambda>sub_parsed.
     bindM (liftM (dict_get sub_parsed key)) (\<lambda>x.
       DictValidator_parse_items fp rest (dict_set key x parsed)))"

definition DictValidator_parse :: "field_parser \<Rightarrow> pyval \<Rightarrow> pyval M" where
  "DictValidator_parse fp v =
     bindM (DictValidator_validate fp v) (\<lambda>ok.
       if \<not> ok then raiseM ValueError
       else case v of
         VDict d \<Rightarrow> bindM (DictValidator_parse_items fp d []) (\<lambda>parsed. retM (VDict parsed))
       | _ \<Rightarrow> raiseM ValueError)"

text \<open>\<^verbatim>\<open>GridoptionsValidator.validate\<close>: per item, a \<^verbatim>\<open>try\<close> around the loop over its entries.\<close>

definition is_dict :: "pyval \<Rightarrow> bool" where
  "is_dict v = (case v of VDict d \<Rightarrow> True | _ \<Rightarrow> False)"

fun Gridoptions_validate_entries :: "field_parser \<Rightarrow> pydict \<Rightarrow> bool M" where
  "Gridoptions_validate_entries fp [] = retM True"
| "Gridoptions_validate_entries fp ((subkey, subprop) # rest) =
     (if \<not> is_dict subprop then retM False
      else (\<lambda>w. case fp (VDict [(subkey, subprop)]) w of
        (Inl e, w') \<Rightarrow> (Inr False, w')
      | (Inr r, w') \<Rightarrow> Gridoptions_validate_entries fp rest w'))"

fun Gridoptions_validate_items :: "field_parser \<Rightarrow> pyval list \<Rightarrow> bool M" where
  "Gridoptions_validate_items fp [] = retM True"
| "Gridoptions_validate_items fp (item # rest) =
     (case item of
        VDict d \<Rightarrow> bindM (Gridoptions_validate_entries fp d) (\<lambda>ok.
                    if \<not> ok then retM False else Gridoptions_validate_items fp rest)
      | _ \<Rightarrow> retM False)"

definition GridoptionsValidator_validate :: "field_parser \<Rightarrow> pyval \<Rightarrow> bool M" where
  "GridoptionsValidator_validate fp v =
     (case v of VList xs \<Rightarrow> Gridoptions_validate_items fp xs | _ \<Rightarrow> retM False)"

fun Gridoptions_parse_entries :: "field_parser \<Rightarrow> pydict \<Rightarrow> pydict \<Rightarrow> pydict M" where
  "Gridoptions_parse_entries fp [] parsed_dict = retM parsed_dict"
| "Gridoptions_parse_entries fp ((subkey, subprop) # rest) parsed_dict =
     bindM (fp (VDict [(subkey, subprop)])) (\<lambda>parsed.
     bindM (liftM (dict_get parsed subkey)) (\<lambda>x.
       Gridoptions_parse_entries fp rest (dict_set subkey x parsed_dict)))"

fun Gridoptions_parse_items :: "field_parser \<Rightarrow> pyval list \<Rightarrow> pyval list \<Rightarrow> pyval list M" where
  "Gridoptions_parse_items fp [] parsed_list = retM parsed_list"
| "Gridoptions_parse_items fp (item # rest) parsed_list =
     (case item of
        VDict d \<Rightarrow> bindM (Gridoptions_parse_entries fp d []) (\<lambda>parsed_dict.
                    Gridoptions_parse_items fp rest (parsed_list @ [VDict parsed_dict]))
      | _ \<Rightarrow> raiseM OtherError)"

definition GridoptionsValidator_parse :: "field_parser \<Rightarrow> pyval \<Rightarrow> pyval M" where
  "GridoptionsValidator_parse fp v =
     bindM (GridoptionsValidator_validate fp v) (\<lambda>ok.
       if \<not> ok then raiseM ValueError
       else case v of
         VList xs \<Rightarrow> bindM (Gridoptions_parse_items fp xs []) (\<lambda>parsed_list. retM (VList parsed_list))
       | _ \<Rightarrow> raiseM ValueError)"

definition PlotoptionsValidator_parse :: "field_parser \<Rightarrow> pyval \<Rightarrow> pyval M" where
  "PlotoptionsValidator_parse fp v = bindM (fp v) (\<lambda>parsed. retM (VDict parsed))"

subsection \<open>The registry\<close>

type_synonym validator_parse = "field_parser \<Rightarrow> pyval \<Rightarrow> pyval M"

definition pure_parse :: "(pyval \<Rightarrow> error + pyval) \<Rightarrow> validator_parse" where
  "pure_parse f = (\<lambda>fp v. liftM (f v))"

text \<open>\<^verbatim>\<open>VALIDATORS\<close>, as the \<^verbatim>\<open>parse\<close> method of the validator registered under each name.\<close>

definition VALIDATORS :: "env \<Rightarrow> (string \<times> validator_parse) list" where
  "VALIDATORS E =
     [(''pathstr'', pure_parse (PathstrValidator_parse E)),
      (''filename'', pure_parse (FilenameValidator_parse E)),
      (''yaml'', pure_parse (YamlValidator_parse E)),
      (''fileformat'', pure_parse (FileformatValidator_parse E)),
      (''str'', pure_parse StrValidator_parse),
      (''bool'', pure_parse BoolValidator_parse),
      (''color'', pure_parse (ColorValidator_parse E)),
      (''float'', pure_parse (FloatValidator_parse E)),
      (''int'', pure_parse (IntValidator_parse E)),
      (''undetermined'', pure_parse UndeterminedValidator_parse),
      (''fontfamily'', pure_parse (FontfamilyValidator_parse E)),
      (''fontsize'', pure_parse (FontsizeValidator_parse E)),
      (''linewidth'', pure_parse (LinewidthValidator_parse E)),
      (''dict'', DictValidator_parse),
      (''figsize'', pure_parse (FigsizeValidator_parse E)),
      (''gridoptions'', GridoptionsValidator_parse),
      (''plotoptions'', PlotoptionsValidator_parse)]"

text \<open>\<^verbatim>\<open>VALIDATORS.get(name)\<close> for any value \<^verbatim>\<open>name\<close>.\<close>

definition VALIDATORS_get :: "env \<Rightarrow> pyval \<Rightarrow> error + validator_parse option" where
  "VALIDATORS_get E name =
     (if \<not> hashable name then Inl TypeError
      else Inr (case name of VStr s \<Rightarrow> map_of (VALIDATORS E) s | _ \<Rightarrow> None))"

section \<open>The field interface (plotstyle\_interface)\<close>

subsection \<open>Normalization\<close>

definition as_implicit :: "pyval \<Rightarrow> pydict" where
  "as_implicit v =
     [(''value'', v), (''validator'', VStr ''undetermined''), (''source'', VStr ''literal'')]"

definition setdefault :: "string \<Rightarrow> 'v \<Rightarrow> (string \<times> 'v) list \<Rightarrow> (string \<times> 'v) list" where
  "setdefault k v d = (if dict_has k d then d else d @ [(k, v)])"

definition looks_explicit :: "pydict \<Rightarrow> bool" where
  "looks_explicit mapping = (dict_has ''value'' mapping \<or> dict_has ''source'' mapping)"

definition normalize_prop :: "string \<Rightarrow> pyval \<Rightarrow> pydict M" where
  "normalize_prop key raw_prop =
     (case raw_prop of
        VTagged intent v \<Rightarrow>
          (case intent of
             IMPLICIT \<Rightarrow> retM (as_implicit v)
           | EXPLICIT \<Rightarrow>
               (case v of
                  VDict d \<Rightarrow>
                    if \<not> dict_has ''value'' d then raiseM ValueError
                    else retM (setdefault ''source'' (VStr ''literal'')
                                (setdefault ''validator'' (VStr ''undetermined'') d))
                | _ \<Rightarrow> raiseM ValueError))
      | VDict d \<Rightarrow>
          if dict_has ''value'' d
          then retM (setdefault ''source'' (VStr ''literal'')
                      (setdefault ''validator'' (VStr ''undetermined'') d))
          else (\<lambda>w. (Inr (as_implicit raw_prop),
                      if looks_explicit d then warn (LooksExplicit key) w else w))
      | _ \<Rightarrow> retM (as_implicit raw_prop))"

subsection \<open>Fetching and parsing a field's value\<close>

definition fetch_value :: "string \<Rightarrow> pydict \<Rightarrow> pydict \<Rightarrow> pydict \<Rightarrow> error + pyval \<times> pyval" where
  "fetch_value key prop dump_to read_from =
     (case map_of prop ''source'' of
        None \<Rightarrow> Inl SourceFieldMissing
      | Some src \<Rightarrow>
          if src = VStr ''literal'' then
            bindE (dict_get prop ''value'') (\<lambda>v. Inr (VStr key, v))
          else if src = VStr ''field'' then
            bindE (dict_get prop ''value'') (\<lambda>r.
            bindE (dict_getitem (dict_union dump_to read_from) r) (\<lambda>v. Inr (r, v)))
          else Inl InvalidSourceType)"

text \<open>
  \<^verbatim>\<open>_dump_to_dict(local_handle, dump_to, read_from)\<close> as its callers see it. \<^verbatim>\<open>dump_to\<close> is
  mutated in place, so the call returns the dictionary's contents afterwards also when it
  raises. \<^verbatim>\<open>read_from\<close> is \<open>None\<close> when the caller passes the very object \<^verbatim>\<open>dump_to\<close> (every
  call but the one of the field parser does), and \<open>Some r\<close> for another dictionary.
\<close>

type_synonym dumper =
  "pyval \<Rightarrow> pydict \<Rightarrow> pydict option \<Rightarrow> world \<Rightarrow> (error + unit) \<times> pydict \<times> world"

text \<open>\<^verbatim>\<open>lambda nested_handle: dumper(nested_handle, dump_to={}, read_from=dump_to)\<close>\<close>

definition nested_field_parser :: "dumper \<Rightarrow> pydict \<Rightarrow> field_parser" where
  "nested_field_parser dumper dump_to =
     (\<lambda>nested_handle w.
        case dumper nested_handle [] (Some dump_to) w of
          (Inl e, d, w') \<Rightarrow> (Inl e, w')
        | (Inr u, d, w') \<Rightarrow> (Inr d, w'))"

text \<open>\<^verbatim>\<open>prop[k]\<close> for a string \<^verbatim>\<open>k\<close> and any \<^verbatim>\<open>prop\<close>: only a dictionary can be indexed by a
  string.\<close>

definition py_getitem :: "pyval \<Rightarrow> string \<Rightarrow> error + pyval" where
  "py_getitem prop k = (case prop of VDict d \<Rightarrow> dict_get d k | _ \<Rightarrow> Inl TypeError)"

text \<open>The \<^verbatim>\<open>try\<close> block of \<^verbatim>\<open>parse_prop\<close>, once \<^verbatim>\<open>prop[PropKeys.VALIDATOR]\<close> has a value.\<close>

definition parse_prop_try ::
  "env \<Rightarrow> dumper \<Rightarrow> string \<Rightarrow> pydict \<Rightarrow> pyval \<Rightarrow> pydict \<Rightarrow> pydict \<Rightarrow> pyval M" where
  "parse_prop_try E dumper key prop name dump_to read_from =
     bindM (liftM (VALIDATORS_get E name)) (\<lambda>validator.
       case validator of
         None \<Rightarrow> raiseM UnkownValidator
       | Some parse \<Rightarrow>
           bindM (liftM (fetch_value key prop dump_to read_from)) (\<lambda>kv.
             parse (nested_field_parser dumper dump_to) (snd kv)))"

text \<open>
  \<^verbatim>\<open>parse_prop\<close>. Its handler formats the message with \<^verbatim>\<open>prop[PropKeys.VALIDATOR]\<close>: when that
  lookup is what failed in the \<^verbatim>\<open>try\<close>, it fails again in the handler and its exception,
  not a \<^verbatim>\<open>ParseError\<close>, leaves the function.
\<close>

definition parse_prop ::
  "env \<Rightarrow> dumper \<Rightarrow> string \<Rightarrow> pyval \<Rightarrow> pydict \<Rightarrow> pydict \<Rightarrow> pyval M" where
  "parse_prop E dumper key prop dump_to read_from =
     (case py_getitem prop ''validator'' of
        Inl e \<Rightarrow> raiseM e
      | Inr name \<Rightarrow>
          (case prop of
             VDict d \<Rightarrow>
               (\<lambda>w. case parse_prop_try E dumper key d name dump_to read_from w of
                  (Inl e, w') \<Rightarrow> (Inl (ParseError e), w')
                | (Inr v, w') \<Rightarrow> (Inr v, w'))
           | _ \<Rightarrow> raiseM TypeError))"

subsection \<open>Affixes\<close>

definition format_key :: "string \<Rightarrow> string \<Rightarrow> string" where
  "format_key key affix_type = key @ ''__'' @ affix_type @ ''__''"

definition unpack_affix_key :: "env \<Rightarrow> string \<Rightarrow> error + string \<times> string" where
  "unpack_affix_key E key =
     (case parse_format E key of Some r \<Rightarrow> Inr r | None \<Rightarrow> Inl ValueError)"

definition set_affix :: "string \<Rightarrow> pyval \<Rightarrow> world \<Rightarrow> world" where
  "set_affix k v w = w\<lparr>ctx := (ctx w)\<lparr>affix := dict_set k v (affix (ctx w))\<rparr>\<rparr>"

text \<open>One round of the loop of \<^verbatim>\<open>register_affixable\<close>.\<close>

definition register_affix ::
  "env \<Rightarrow> dumper \<Rightarrow> string \<Rightarrow> pydict \<Rightarrow> pydict \<Rightarrow> pydict \<Rightarrow> string \<Rightarrow> world \<Rightarrow> world" where
  "register_affix E dumper key prop dump_to read_from affix_type w =
     (case map_of prop affix_type of
        None \<Rightarrow> w
      | Some a \<Rightarrow>
          if a = VDict [] then w
          else (case parse_prop E dumper key a dump_to read_from w of
                  (Inl e, w') \<Rightarrow> warn (IgnoreField (key @ ''.'' @ affix_type) e) w'
                | (Inr v, w') \<Rightarrow> set_affix (format_key key affix_type) v w'))"

definition register_affixable ::
  "env \<Rightarrow> dumper \<Rightarrow> string \<Rightarrow> pydict \<Rightarrow> pydict \<Rightarrow> pydict \<Rightarrow> world \<Rightarrow> world" where
  "register_affixable E dumper key prop dump_to read_from w =
     register_affix E dumper key prop dump_to read_from ''suffix''
       (register_affix E dumper key prop dump_to read_from ''prefix'' w)"

text \<open>The operator \<^verbatim>\<open>a + b\<close>.\<close>

definition int_value :: "pyval \<Rightarrow> int option" where
  "int_value v = (case v of VInt n \<Rightarrow> Some n | VBool b \<Rightarrow> Some (if b then 1 else 0) | _ \<Rightarrow> None)"

definition is_number :: "pyval \<Rightarrow> bool" where
  "is_number v = (case v of VInt n \<Rightarrow> True | VBool b \<Rightarrow> True | VFloat f \<Rightarrow> True | _ \<Rightarrow> False)"

definition py_add :: "env \<Rightarrow> pyval \<Rightarrow> pyval \<Rightarrow> error + pyval" where
  "py_add E a b =
     (case (a, b) of
        (VStr x, VStr y) \<Rightarrow> Inr (VStr (x @ y))
      | (VList x, VList y) \<Rightarrow> Inr (VList (x @ y))
      | (VTuple x, VTuple y) \<Rightarrow> Inr (VTuple (x @ y))
      | _ \<Rightarrow>
          (case (int_value a, int_value b) of
             (Some m, Some n) \<Rightarrow> Inr (VInt (m + n))
           | _ \<Rightarrow> if is_number a \<and> is_number b then float_add E a b else Inl TypeError))"

fun apply_affixes :: "env \<Rightarrow> pydict \<Rightarrow> pydict \<Rightarrow> error + pydict" where
  "apply_affixes E params_dict [] = Inr params_dict"
| "apply_affixes E params_dict ((field, affix_value) # rest) =
     bindE (unpack_affix_key E field) (\<lambda>ka.
       if snd ka = ''suffix'' then
         bindE (dict_get params_dict (fst ka)) (\<lambda>old.
         bindE (py_add E old affix_value) (\<lambda>new.
           apply_affixes E (dict_set (fst ka) new params_dict) rest))
       else if snd ka = ''prefix'' then
         bindE (dict_get params_dict (fst ka)) (\<lambda>old.
         bindE (py_add E affix_value old) (\<lambda>new.
           apply_affixes E (dict_set (fst ka) new params_dict) rest))
       else Inl ValueError)"

definition ignore_configs :: "pydict \<Rightarrow> pydict" where
  "ignore_configs handle = dict_del ''configs'' handle"

section \<open>Localization (plotstyle\_interface.apply\_localization)\<close>

fun resolve :: "string \<Rightarrow> pyval \<Rightarrow> pyval" where
  "resolve language (VDict d) =
     (case map_of d language of
        Some v \<Rightarrow> v
      | None \<Rightarrow> VDict (map (\<lambda>kv. (fst kv, resolve language (snd kv))) d))"
| "resolve language (VList xs) = VList (map (resolve language) xs)"
| "resolve language v = v"

definition apply_localization :: "pydict \<Rightarrow> pydict \<Rightarrow> string \<Rightarrow> pydict \<times> pydict" where
  "apply_localization params_dict affix_dict language =
     (map (\<lambda>kv. (fst kv, resolve language (snd kv))) params_dict,
      map (\<lambda>kv. (fst kv, resolve language (snd kv))) affix_dict)"

section \<open>The resolver (plotstyle.\_yaml\_parse\_from\_dict)\<close>

text \<open>Truthiness, for \<^verbatim>\<open>yaml.safe_load(f) or {}\<close>. A float is false exactly when it is zero, that
  is, when it is both \<open>\<le> 0\<close> and \<open>\<ge> 0\<close>.\<close>

definition py_truthy :: "env \<Rightarrow> pyval \<Rightarrow> bool" where
  "py_truthy E v =
     (case v of
        VNone \<Rightarrow> False
      | VBool b \<Rightarrow> b
      | VInt n \<Rightarrow> n \<noteq> 0
      | VFloat f \<Rightarrow> \<not> (float_le0 E f \<and> float_ge0 E f)
      | VStr s \<Rightarrow> s \<noteq> []
      | VList xs \<Rightarrow> xs \<noteq> []
      | VTuple xs \<Rightarrow> xs \<noteq> []
      | VDict d \<Rightarrow> d \<noteq> []
      | VTagged i x \<Rightarrow> True
      | VLambda s \<Rightarrow> True)"

definition load_yaml :: "env \<Rightarrow> pyval \<Rightarrow> error + pydict" where
  "load_yaml E path =
     (case path of
        VStr p \<Rightarrow>
          bindE (safe_load E p) (\<lambda>loaded.
            case (if py_truthy E loaded then loaded else VDict []) of
              VDict d \<Rightarrow> Inr d
            | _ \<Rightarrow> Inl TypeError)
      | _ \<Rightarrow> Inl TypeError)"

text \<open>\<^verbatim>\<open>dict(x)\<close>\<close>

definition py_dict :: "env \<Rightarrow> pyval \<Rightarrow> error + pydict" where
  "py_dict E v = (case v of VDict d \<Rightarrow> Inr d | _ \<Rightarrow> builtin_dict E v)"

definition file_stack_append :: "pyval \<Rightarrow> world \<Rightarrow> world" where
  "file_stack_append p w = w\<lparr>ctx := (ctx w)\<lparr>file_stack := file_stack (ctx w) @ [p]\<rparr>\<rparr>"

definition file_stack_pop :: "world \<Rightarrow> error + world" where
  "file_stack_pop w =
     (if file_stack (ctx w) = [] then Inl IndexError
      else Inr (w\<lparr>ctx := (ctx w)\<lparr>file_stack := butlast (file_stack (ctx w))\<rparr>\<rparr>))"

text \<open>
  The loop \<^verbatim>\<open>for path in paths\<close> of the chain-include branch (lines 68-73). The merge writes
  into \<^verbatim>\<open>dump_to\<close> itself, so the \<^verbatim>\<open>dump_to.update(...)\<close> around it, which updates the
  dictionary with itself, changes nothing.
\<close>

fun include_paths ::
  "env \<Rightarrow> dumper \<Rightarrow> pyval \<Rightarrow> pyval list \<Rightarrow> pydict \<Rightarrow> world \<Rightarrow> (error + unit) \<times> pydict \<times> world" where
  "include_paths E dumper configs_folder [] dump_to w = (Inr (), dump_to, w)"
| "include_paths E dumper configs_folder (path # rest) dump_to w =
     (let w1 = file_stack_append path w in
      case bindE (resolve_yaml_path E path configs_folder) (\<lambda>resolved.
           bindE (YamlValidator_parse E (VStr resolved)) (\<lambda>checked.
             load_yaml E checked)) of
        Inl e \<Rightarrow> (Inl e, dump_to, w1)
      | Inr included \<Rightarrow>
          (case dumper (VDict included) dump_to None w1 of
             (Inl e, d2, w2) \<Rightarrow> (Inl e, d2, w2)
           | (Inr u, d2, w2) \<Rightarrow>
               (case file_stack_pop w2 of
                  Inl e \<Rightarrow> (Inl e, d2, w2)
                | Inr w3 \<Rightarrow> include_paths E dumper configs_folder rest d2 w3)))"

text \<open>The \<^verbatim>\<open>try\<close> block of the chain-include branch (lines 65-73).\<close>

definition chain_include ::
  "env \<Rightarrow> dumper \<Rightarrow> pyval \<Rightarrow> string \<Rightarrow> pydict \<Rightarrow> pydict \<Rightarrow> pydict \<Rightarrow> world
     \<Rightarrow> (error + unit) \<times> pydict \<times> world" where
  "chain_include E dumper configs_folder key prop dump_to read_from w =
     (case fetch_value key prop dump_to read_from of
        Inl e \<Rightarrow> (Inl e, dump_to, w)
      | Inr kv \<Rightarrow>
          include_paths E dumper configs_folder
            (case snd kv of VList paths \<Rightarrow> paths | v \<Rightarrow> [v]) dump_to w)"

text \<open>Lines 85-95: the \<^verbatim>\<open>keep\<close> entry of a field, recorded when it is a boolean.\<close>

definition record_keep :: "string \<Rightarrow> pydict \<Rightarrow> world \<Rightarrow> world" where
  "record_keep key prop w =
     (case map_of prop ''keep'' of
        None \<Rightarrow> w
      | Some keep_val \<Rightarrow>
          (case keep_val of
             VBool parsed_keep \<Rightarrow>
               if parsed_keep
               then w\<lparr>ctx := (ctx w)\<lparr>explicitly_kept := insert key (explicitly_kept (ctx w))\<rparr>\<rparr>
               else w\<lparr>ctx := (ctx w)\<lparr>explicitly_deleted := insert key (explicitly_deleted (ctx w))\<rparr>\<rparr>
           | _ \<Rightarrow> w))"

definition set_field_prop :: "string \<Rightarrow> pydict \<Rightarrow> world \<Rightarrow> world" where
  "set_field_prop key prop w =
     w\<lparr>ctx := (ctx w)\<lparr>field_props := dict_set key prop (field_props (ctx w))\<rparr>\<rparr>"

text \<open>The dictionary \<^verbatim>\<open>read_from\<close> denotes while \<^verbatim>\<open>dump_to\<close> has the given contents.\<close>

definition reads :: "pydict option \<Rightarrow> pydict \<Rightarrow> pydict" where
  "reads read_from dump_to = (case read_from of None \<Rightarrow> dump_to | Some r \<Rightarrow> r)"

text \<open>
  One round of the loop over the fields of a document (lines 61-95). \<open>Inl\<close> is an exception
  that leaves the loop; a \<^verbatim>\<open>continue\<close> after a warning is a normal end of the round.
\<close>

definition dump_field ::
  "env \<Rightarrow> dumper \<Rightarrow> pyval \<Rightarrow> pydict option \<Rightarrow> string \<Rightarrow> pyval \<Rightarrow> pydict \<Rightarrow> world
     \<Rightarrow> (error + unit) \<times> pydict \<times> world" where
  "dump_field E dumper configs_folder read_from key raw_prop dump_to w =
     (case normalize_prop key raw_prop w of
        (Inl e, w1) \<Rightarrow> (Inl e, dump_to, w1)
      | (Inr prop, w1) \<Rightarrow>
          (let w2 = set_field_prop key prop w1 in
           if dict_get prop ''validator'' = Inr (VStr ''yaml'') then
             (case chain_include E dumper configs_folder key prop dump_to
                     (reads read_from dump_to) w2 of
                (Inl e, d3, w3) \<Rightarrow> (Inr (), d3, warn (IgnoreField key e) w3)
              | (Inr u, d3, w3) \<Rightarrow> (Inr (), d3, record_keep key prop w3))
           else
             (case parse_prop E dumper key (VDict prop) dump_to (reads read_from dump_to) w2 of
                (Inl e, w3) \<Rightarrow> (Inr (), dump_to, warn (IgnoreField key e) w3)
              | (Inr parsed_value, w3) \<Rightarrow>
                  (let d3 = dict_set key parsed_value dump_to;
                       w4 = register_affixable E dumper key prop d3 (reads read_from d3) w3
                   in (Inr (), d3, record_keep key prop w4)))))"

fun dump_fields ::
  "env \<Rightarrow> dumper \<Rightarrow> pyval \<Rightarrow> pydict option \<Rightarrow> pydict \<Rightarrow> pydict \<Rightarrow> world
     \<Rightarrow> (error + unit) \<times> pydict \<times> world" where
  "dump_fields E dumper configs_folder read_from [] dump_to w = (Inr (), dump_to, w)"
| "dump_fields E dumper configs_folder read_from ((key, raw_prop) # rest) dump_to w =
     (case dump_field E dumper configs_folder read_from key raw_prop dump_to w of
        (Inl e, d1, w1) \<Rightarrow> (Inl e, d1, w1)
      | (Inr u, d1, w1) \<Rightarrow> dump_fields E dumper configs_folder read_from rest d1 w1)"

text \<open>The body of \<^verbatim>\<open>_dump_to_dict\<close>, with the function to call for its recursive calls.\<close>

definition dump_to_dict_body :: "env \<Rightarrow> dumper \<Rightarrow> pyval \<Rightarrow> dumper" where
  "dump_to_dict_body E dumper configs_folder local_handle dump_to read_from w =
     (case py_dict E local_handle of
        Inl e \<Rightarrow> (Inl e, dump_to, w)
      | Inr h \<Rightarrow> dump_fields E dumper configs_folder read_from (ignore_configs h) dump_to w)"

text \<open>
  \<^verbatim>\<open>_dump_to_dict\<close> calls itself for every chain-included document and for every nested
  field of a composite validator, and nothing in the code bounds the nesting: a document that
  includes itself recurses until the interpreter's recursion limit raises \<^verbatim>\<open>RecursionError\<close>,
  an \<^verbatim>\<open>Exception\<close> like the others. The first argument is the number of nested activations
  of \<^verbatim>\<open>_dump_to_dict\<close> for which the interpreter still has room.
\<close>

primrec dump_to_dict :: "nat \<Rightarrow> env \<Rightarrow> pyval \<Rightarrow> dumper" where
  "dump_to_dict 0 E configs_folder =
     (\<lambda>local_handle dump_to read_from w. (Inl RecursionError, dump_to, w))"
| "dump_to_dict (Suc depth) E configs_folder =
     dump_to_dict_body E (dump_to_dict depth E configs_folder) configs_folder"

text \<open>\<^verbatim>\<open>_yaml_parse_from_dict(handle, ctx, configs_folder)\<close> with \<^verbatim>\<open>dump_to\<close> and \<^verbatim>\<open>read_from\<close>
  left at \<^verbatim>\<open>None\<close>: a new dictionary, read from itself.\<close>

definition yaml_parse_from_dict :: "nat \<Rightarrow> env \<Rightarrow> pyval \<Rightarrow> pyval \<Rightarrow> pydict M" where
  "yaml_parse_from_dict depth E configs_folder handle =
     (\<lambda>w. case dump_to_dict depth E configs_folder handle [] None w of
        (Inl e, d, w') \<Rightarrow> (Inl e, w')
      | (Inr u, d, w') \<Rightarrow> (Inr d, w'))"

definition yaml_parse_single_file :: "nat \<Rightarrow> env \<Rightarrow> pyval \<Rightarrow> pyval \<Rightarrow> pydict M" where
  "yaml_parse_single_file depth E configs_folder entry_file =
     bindM (liftM (resolve_yaml_path E entry_file configs_folder)) (\<lambda>resolved.
     bindM (liftM (load_yaml E (VStr resolved))) (\<lambda>handle.
       yaml_parse_from_dict depth E configs_folder (VDict handle)))"

section \<open>Keep/delete inference (plotstyle.\_resolve\_marked\_for\_delete)\<close>

definition KEEP_DEFAULT_CLASS_LEVEL :: bool where
  "KEEP_DEFAULT_CLASS_LEVEL = True"

definition default_keep :: bool where
  "default_keep = KEEP_DEFAULT_CLASS_LEVEL"

text \<open>\<^verbatim>\<open>SOURCE_DEFAULT_KEEP.get(source, cls._KEEP_DEFAULT_CLASS_LEVEL)\<close>\<close>

definition default_keep_for_source :: "pyval \<Rightarrow> error + bool" where
  "default_keep_for_source source =
     (if \<not> hashable source then Inl TypeError
      else Inr (if source = VStr ''literal'' then True
                else if source = VStr ''field'' then False
                else KEEP_DEFAULT_CLASS_LEVEL))"

text \<open>\<^verbatim>\<open>d.get(k)\<close> for a string key: \<^verbatim>\<open>None\<close> when absent.\<close>

definition dict_get_or_None :: "pydict \<Rightarrow> string \<Rightarrow> pyval" where
  "dict_get_or_None d k = (case map_of d k of None \<Rightarrow> VNone | Some v \<Rightarrow> v)"

text \<open>The first loop (lines 125-127). The set \<^verbatim>\<open>referenced\<close> is kept as the list of the values
  added, in order; adding an unhashable value raises.\<close>

fun referenced_fields :: "(string \<times> pydict) list \<Rightarrow> pyval list \<Rightarrow> error + pyval list" where
  "referenced_fields [] referenced = Inr referenced"
| "referenced_fields ((key, prop) # rest) referenced =
     (if dict_get_or_None prop ''source'' = VStr ''field'' then
        (if hashable (dict_get_or_None prop ''value'')
         then referenced_fields rest (referenced @ [dict_get_or_None prop ''value''])
         else Inl TypeError)
      else referenced_fields rest referenced)"

text \<open>\<^verbatim>\<open>ctx.field_props.get(field)\<close> for a hashable \<^verbatim>\<open>field\<close>.\<close>

definition field_props_get :: "(string \<times> pydict) list \<Rightarrow> pyval \<Rightarrow> pydict option" where
  "field_props_get fps field = (case field of VStr s \<Rightarrow> map_of fps s | _ \<Rightarrow> None)"

text \<open>The second loop (lines 129-136). \<^verbatim>\<open>marked\<close> holds keys; line 132 would add a field
  without a descriptor, and never does, \<^verbatim>\<open>default_keep()\<close> being \<^verbatim>\<open>True\<close>.\<close>

fun infer_marked ::
  "(string \<times> pydict) list \<Rightarrow> pyval list \<Rightarrow> string set \<Rightarrow> error + string set" where
  "infer_marked fps [] marked = Inr marked"
| "infer_marked fps (field # rest) marked =
     (case field_props_get fps field of
        None \<Rightarrow>
          infer_marked fps rest
            (if \<not> default_keep then (case field of VStr s \<Rightarrow> insert s marked | _ \<Rightarrow> marked)
             else marked)
      | Some prop \<Rightarrow>
          bindE (default_keep_for_source (dict_get_or_None prop ''source'')) (\<lambda>inferred_keep.
            infer_marked fps rest
              (if \<not> inferred_keep then (case field of VStr s \<Rightarrow> insert s marked | _ \<Rightarrow> marked)
               else marked)))"

definition resolve_marked_for_delete :: "ParseContext \<Rightarrow> error + ParseContext" where
  "resolve_marked_for_delete c =
     bindE (referenced_fields (field_props c) []) (\<lambda>referenced.
     bindE (infer_marked (field_props c) referenced {}) (\<lambda>marked.
       Inr (c\<lparr>marked_for_delete := (marked \<union> explicitly_deleted c) - explicitly_kept c\<rparr>)))"

section \<open>The constructor (plotstyle.PlotStyle)\<close>

record init_args =
  yaml_dict :: "pyval option"
  yaml_file :: "pyval option"
  language :: string
  configs_folder :: pyval
  base_folder :: pyval
  keep_all_fields :: bool

definition input_validate :: "env \<Rightarrow> init_args \<Rightarrow> error + unit" where
  "input_validate E a =
     (if \<not> PathstrValidator_validate E (configs_folder a) then Inl TypeError
      else if py_truthy E (base_folder a) \<and> \<not> PathstrValidator_validate E (base_folder a)
      then Inl ValueError
      else case yaml_dict a of
        Some d \<Rightarrow> if \<not> is_dict d then Inl TypeError else Inr ()
      | None \<Rightarrow>
          (case yaml_file a of
             Some f \<Rightarrow>
               bindE (resolve_yaml_path E f (configs_folder a)) (\<lambda>resolved.
               bindE (YamlValidator_validate E (VStr resolved)) (\<lambda>ok.
                 if \<not> ok then Inl ValueError else Inr ()))
           | None \<Rightarrow> Inr ()))"

text \<open>The body of \<^verbatim>\<open>_delete_marked_fields(self, ctx)\<close>.\<close>

definition delete_marked_fields :: "pydict \<Rightarrow> ParseContext \<Rightarrow> pydict" where
  "delete_marked_fields params c = filter (\<lambda>kv. fst kv \<notin> marked_for_delete c) params"

text \<open>Lines 264-270: the parameters, from \<^verbatim>\<open>yaml_dict\<close> or else from \<^verbatim>\<open>yaml_file\<close>. With neither,
  \<^verbatim>\<open>self.__params__\<close> is never assigned and line 276 raises \<^verbatim>\<open>AttributeError\<close>.\<close>

definition init_params :: "nat \<Rightarrow> env \<Rightarrow> init_args \<Rightarrow> pydict M" where
  "init_params depth E a =
     (case yaml_dict a of
        Some d \<Rightarrow>
          bindM (liftM (py_dict E d)) (\<lambda>copied.
            yaml_parse_from_dict depth E (configs_folder a) (VDict copied))
      | None \<Rightarrow>
          (case yaml_file a of
             Some f \<Rightarrow>
               (\<lambda>w. bindM
                  (liftM (case f of
                            VStr s \<Rightarrow> if \<not> isabs E s
                                      then bindE (resolve_yaml_path E f (configs_folder a))
                                             (\<lambda>r. Inr (VStr r))
                                      else Inr f
                          | _ \<Rightarrow> Inl TypeError))
                  (\<lambda>f'. yaml_parse_single_file depth E (configs_folder a) f')
                  (file_stack_append f w))
           | None \<Rightarrow> raiseM OtherError))"

text \<open>
  \<^verbatim>\<open>setattr(self, key, value)\<close> on the instance under construction, as the exception it raises
  if any. The class has no \<^verbatim>\<open>__slots__\<close> and defines no property, so the assignment is
  refused only where the type holds a data descriptor: \<^verbatim>\<open>__class__\<close> accepts nothing but a
  class, \<^verbatim>\<open>__dict__\<close> nothing but a dictionary, and \<^verbatim>\<open>__weakref__\<close> is not writable.
\<close>

definition setattr_error :: "string \<Rightarrow> pyval \<Rightarrow> error option" where
  "setattr_error key v =
     (if key = ''__class__'' then Some TypeError
      else if key = ''__dict__'' then (if is_dict v then None else Some TypeError)
      else if key = ''__weakref__'' then Some AttributeError
      else None)"

text \<open>Line 280: \<^verbatim>\<open>for key, value in self.__params__.items(): setattr(self, key, value)\<close>\<close>

fun set_attributes :: "pydict \<Rightarrow> error + unit" where
  "set_attributes [] = Inr ()"
| "set_attributes ((key, v) # rest) =
     (case setattr_error key v of
        Some e \<Rightarrow> Inl e
      | None \<Rightarrow> set_attributes rest)"

text \<open>
  \<^verbatim>\<open>PlotStyle.__init__\<close>, from the context object it is given (the default is one object
  shared by all calls) to the mapping that lines 262 to 278 leave in \<^verbatim>\<open>self.__params__\<close> and
  that the loop of line 280 iterates over. The constructor returns normally exactly if every
  assignment of that loop is accepted; an assignment that is refused ends the construction
  with its exception. Line 278 calls \<^verbatim>\<open>self._delete_marked_fields()\<close> without the
  argument \<^verbatim>\<open>ctx\<close> its definition requires: the call raises \<^verbatim>\<open>TypeError\<close> before the method's
  body runs.
\<close>

definition PlotStyle_init :: "nat \<Rightarrow> env \<Rightarrow> init_args \<Rightarrow> pydict M" where
  "PlotStyle_init depth E a =
     bindM (liftM (input_validate E a)) (\<lambda>u.
     bindM (init_params depth E a) (\<lambda>params.
     bindM (\<lambda>w. case resolve_marked_for_delete (ctx w) of
                   Inl e \<Rightarrow> (Inl e, w)
                 | Inr c \<Rightarrow> (Inr (), w\<lparr>ctx := c\<rparr>)) (\<lambda>u.
     bindM (\<lambda>w. let (p, x) = apply_localization params (affix (ctx w)) (language a)
                 in (Inr p, w\<lparr>ctx := (ctx w)\<lparr>affix := x\<rparr>\<rparr>)) (\<lambda>localized.
     bindM (\<lambda>w. (apply_affixes E localized (affix (ctx w)), w)) (\<lambda>decorated.
       if \<not> keep_all_fields a then raiseM TypeError
       else bindM (liftM (set_attributes decorated)) (\<lambda>u. retM decorated))))))"


section \<open>A concrete environment\<close>

text \<open>
  For evaluating the definitions on concrete documents: an environment whose documents folder
  holds the given files (name and loaded contents), in which every name is its own normal
  path, and in which the \<^verbatim>\<open>parse\<close> library matches \<^verbatim>\<open>{key}__{affix}__\<close> with the shortest
  possible \<^verbatim>\<open>key\<close>. No float arises in it.
\<close>

definition affix_part :: "string \<Rightarrow> string option" where
  "affix_part rest =
     (if 3 \<le> length rest \<and> drop (length rest - 2) rest = ''__''
      then Some (take (length rest - 2) rest) else None)"

fun split_from :: "string \<Rightarrow> string \<Rightarrow> (string \<times> string) option" where
  "split_from acc [] = None"
| "split_from acc (c # cs) =
     (case (if acc \<noteq> [] \<and> c = CHR ''_'' \<and> take 1 cs = ''_''
            then affix_part (drop 1 cs) else None) of
        Some a \<Rightarrow> Some (acc, a)
      | None \<Rightarrow> split_from (acc @ [c]) cs)"

definition files_env :: "(string \<times> pyval) list \<Rightarrow> env" where
  "files_env files =
     \<lparr>resolve_yaml_path =
        (\<lambda>filename folder.
           case filename of
             VStr s \<Rightarrow> if dict_has s files then Inr s else Inl FileNotFoundError
           | _ \<Rightarrow> Inl TypeError),
      yaml_file_ok = (\<lambda>s. Inr (dict_has s files)),
      normpath = (\<lambda>s. s),
      isabs = (\<lambda>s. False),
      safe_load = (\<lambda>s. case map_of files s of Some v \<Rightarrow> Inr v | None \<Rightarrow> Inl FileNotFoundError),
      pathstr_ok = (\<lambda>s. s \<noteq> []),
      supported_filetypes = [''png'', ''pdf'', ''svg''],
      is_color_like = (\<lambda>v. Inr False),
      findfont_ok = (\<lambda>v. False),
      float_of_int = (\<lambda>n. Inl OverflowError),
      float_of_str = (\<lambda>s. Inl ValueError),
      int_of_str = (\<lambda>s. Inl ValueError),
      int_of_float = (\<lambda>f. Inl OverflowError),
      float_gt0 = (\<lambda>f. False),
      float_ge0 = (\<lambda>f. False),
      float_le0 = (\<lambda>f. False),
      float_add = (\<lambda>a b. Inl TypeError),
      builtin_eval = (\<lambda>s. Inl OtherError),
      figsize_lambda_ok = (\<lambda>s. False),
      figsize_numeric_tuple_ok = (\<lambda>s. False),
      builtin_dict = (\<lambda>v. Inl TypeError),
      parse_format = split_from []\<rparr>"

definition new_world :: world where
  "new_world = \<lparr>ctx = new_ParseContext, warned = []\<rparr>"

definition dict_args :: "pyval \<Rightarrow> string \<Rightarrow> bool \<Rightarrow> init_args" where
  "dict_args d lang keep_all =
     \<lparr>yaml_dict = Some d, yaml_file = None, language = lang,
      configs_folder = VStr ''plotstyle_configs'', base_folder = VNone,
      keep_all_fields = keep_all\<rparr>"

section \<open>Example documents\<close>

text \<open>The reference example of the specification: a literal field and a field that reads it.\<close>

definition example_doc :: pyval where
  "example_doc = VDict
     [(''base'', VDict [(''value'', VInt 10), (''validator'', VStr ''int'')]),
      (''doubled'', VDict [(''value'', VStr ''base''), (''source'', VStr ''field''),
                           (''validator'', VStr ''int'')])]"



text \<open>The descriptors of a literal field, a field reading it, and a field reading that one.\<close>

definition chain_props :: "(string \<times> pydict) list" where
  "chain_props =
     [(''base'', [(''value'', VInt 10), (''validator'', VStr ''int''), (''source'', VStr ''literal'')]),
      (''doubled'', [(''value'', VStr ''base''), (''source'', VStr ''field''),
                     (''validator'', VStr ''int'')]),
      (''tripled'', [(''value'', VStr ''doubled''), (''source'', VStr ''field''),
                     (''validator'', VStr ''int'')])]"

text \<open>A field with \<^verbatim>\<open>keep: false\<close> beside a plain one.\<close>

definition keep_doc :: pyval where
  "keep_doc = VDict
     [(''a'', VDict [(''value'', VInt 1), (''keep'', VBool False)]),
      (''b'', VInt 2)]"

text \<open>A string field with an integer suffix.\<close>

definition mismatch_doc :: pyval where
  "mismatch_doc = VDict
     [(''name'', VDict [(''value'', VStr ''Report''),
         (''suffix'', VDict [(''value'', VInt 2), (''validator'', VStr ''int''),
                             (''source'', VStr ''literal'')])]),
      (''other'', VInt 1)]"

text \<open>A chain-include of \<^verbatim>\<open>missing.yaml\<close> followed by a plain field.\<close>

definition include_doc :: pyval where
  "include_doc = VDict
     [(''shared'', VDict [(''value'', VStr ''missing.yaml''), (''validator'', VStr ''yaml'')]),
      (''title'', VStr ''local'')]"

text \<open>A field tagged \<^verbatim>\<open>!explicit\<close> whose payload has no \<^verbatim>\<open>value\<close>, between two plain fields.\<close>

definition bad_tag_doc :: pyval where
  "bad_tag_doc = VDict
     [(''title'', VStr ''local''),
      (''broken'', VTagged EXPLICIT (VDict [(''validator'', VStr ''str'')])),
      (''footer'', VStr ''x'')]"

text \<open>A field with an unregistered validator, between two plain fields.\<close>

definition unknown_validator_doc :: pyval where
  "unknown_validator_doc = VDict
     [(''title'', VStr ''local''),
      (''broken'', VDict [(''value'', VInt 1), (''validator'', VStr ''nosuch'')]),
      (''footer'', VStr ''x'')]"



text \<open>A list field whose suffix is a list holding a three-level localization table, and a
  document with the same field and no suffix.\<close>

definition stale_doc :: pyval where
  "stale_doc = VDict
     [(''name'', VDict [(''value'', VList []),
         (''suffix'', VDict
            [(''value'', VList [VDict [(''pt'', VDict [(''pt'', VDict [(''pt'', VStr ''a'')])])]]),
             (''validator'', VStr ''undetermined''), (''source'', VStr ''literal'')])])]"

definition plain_doc :: pyval where
  "plain_doc = VDict [(''name'', VList [])]"

text \<open>Whether normalization accepts a raw entry: only an \<^verbatim>\<open>!explicit\<close> node whose payload is not
  a mapping with a \<^verbatim>\<open>value\<close> key is refused.\<close>

definition normalizable :: "pyval \<Rightarrow> bool" where
  "normalizable raw_prop =
     (case raw_prop of
        VTagged intent v \<Rightarrow>
          (case intent of
             IMPLICIT \<Rightarrow> True
           | EXPLICIT \<Rightarrow> (case v of VDict d \<Rightarrow> dict_has ''value'' d | _ \<Rightarrow> False))
      | _ \<Rightarrow> True)"

section \<open>Two constructions sharing a context\<close>

text \<open>
  For comparing a construction with a later one that starts from the context the earlier one
  left behind. \<open>later_run X F S w w'\<close> relates the state \<open>w\<close> of a run that started from a new
  context to the state \<open>w'\<close> of a run of the same steps that started with the affix registry
  \<open>X\<close>, the descriptors \<open>F\<close> and the file stack \<open>S\<close> already present: every write of the first
  is a write of the second, on top of what was there. The other predicates say that a
  computation takes related states to related states with equal results, and only ever
  extends the file stack it was given.
\<close>

definition later_run ::
  "pydict \<Rightarrow> (string \<times> pydict) list \<Rightarrow> pyval list \<Rightarrow> world \<Rightarrow> world \<Rightarrow> bool" where
  "later_run X F S w w' \<longleftrightarrow>
     affix (ctx w') = dict_update X (affix (ctx w))
     \<and> field_props (ctx w') = dict_update F (field_props (ctx w))
     \<and> file_stack (ctx w') = S @ file_stack (ctx w)
     \<and> distinct (map fst (affix (ctx w)))
     \<and> distinct (map fst (field_props (ctx w)))"

definition grows :: "world \<Rightarrow> world \<Rightarrow> bool" where
  "grows w v \<longleftrightarrow> (\<exists>ext. file_stack (ctx v) = file_stack (ctx w) @ ext)"

definition simM ::
  "pydict \<Rightarrow> (string \<times> pydict) list \<Rightarrow> pyval list \<Rightarrow> 'a M \<Rightarrow> bool" where
  "simM X F S m \<longleftrightarrow>
     (\<forall>w w'. later_run X F S w w' \<longrightarrow>
        fst (m w) = fst (m w') \<and> later_run X F S (snd (m w)) (snd (m w')) \<and> grows w (snd (m w)))"

definition simT ::
  "pydict \<Rightarrow> (string \<times> pydict) list \<Rightarrow> pyval list
     \<Rightarrow> (world \<Rightarrow> (error + unit) \<times> pydict \<times> world) \<Rightarrow> bool" where
  "simT X F S f \<longleftrightarrow>
     (\<forall>w w'. later_run X F S w w' \<longrightarrow>
        fst (f w) = fst (f w') \<and> fst (snd (f w)) = fst (snd (f w'))
        \<and> later_run X F S (snd (snd (f w))) (snd (snd (f w'))) \<and> grows w (snd (snd (f w))))"

definition simW ::
  "pydict \<Rightarrow> (string \<times> pydict) list \<Rightarrow> pyval list \<Rightarrow> (world \<Rightarrow> world) \<Rightarrow> bool" where
  "simW X F S f \<longleftrightarrow>
     (\<forall>w w'. later_run X F S w w' \<longrightarrow> later_run X F S (f w) (f w') \<and> grows w (f w))"

definition simD :: "pydict \<Rightarrow> (string \<times> pydict) list \<Rightarrow> pyval list \<Rightarrow> dumper \<Rightarrow> bool" where
  "simD X F S D \<longleftrightarrow> (\<forall>h dt rf. simT X F S (D h dt rf))"

text \<open>
  For comparing a computation from two arbitrary contexts: \<open>stack_le w w'\<close> says that the file
  stack of \<open>w'\<close> is at least as deep as that of \<open>w\<close>; the other predicates say that a
  computation gives equal results from two such states, takes them to two such states, and
  only ever extends the file stack it was given.
\<close>

definition stack_le :: "world \<Rightarrow> world \<Rightarrow> bool" where
  "stack_le w w' \<longleftrightarrow> length (file_stack (ctx w)) \<le> length (file_stack (ctx w'))"

definition indepM :: "'a M \<Rightarrow> bool" where
  "indepM m \<longleftrightarrow>
     (\<forall>w w'. stack_le w w' \<longrightarrow>
        fst (m w) = fst (m w') \<and> stack_le (snd (m w)) (snd (m w')) \<and> grows w (snd (m w)))"

definition indepT :: "(world \<Rightarrow> (error + unit) \<times> pydict \<times> world) \<Rightarrow> bool" where
  "indepT f \<longleftrightarrow>
     (\<forall>w w'. stack_le w w' \<longrightarrow>
        fst (f w) = fst (f w') \<and> fst (snd (f w)) = fst (snd (f w'))
        \<and> stack_le (snd (snd (f w))) (snd (snd (f w'))) \<and> grows w (snd (snd (f w))))"

definition indepW :: "(world \<Rightarrow> world) \<Rightarrow> bool" where
  "indepW f \<longleftrightarrow> (\<forall>w w'. stack_le w w' \<longrightarrow> stack_le (f w) (f w') \<and> grows w (f w))"

definition indepD :: "dumper \<Rightarrow> bool" where
  "indepD D \<longleftrightarrow> (\<forall>h dt rf. indepT (D h dt rf))"

section \<open>Facts about dictionaries\<close>

lemma map_of_dict_set: "map_of (dict_set k v d) = (map_of d)(k \<mapsto> v)"
  by (induction d) (auto simp: fun_eq_iff)

lemma map_of_dict_update:
  "distinct (map fst e) \<Longrightarrow> map_of (dict_update d e) = map_of d ++ map_of e"
proof (induction e arbitrary: d)
  case Nil
  show ?case by (simp add: dict_update_def)
next
  case (Cons kv e)
  obtain a b where kv: "kv = (a, b)" by (cases kv)
  from Cons.prems kv have na: "map_of e a = None" and de: "distinct (map fst e)"
    by (auto simp: map_of_eq_None_iff)
  have "map_of (dict_update d (kv # e)) = map_of (dict_update (dict_set a b d) e)"
    by (simp add: dict_update_def kv)
  also have "\<dots> = map_of (dict_set a b d) ++ map_of e"
    by (rule Cons.IH [OF de])
  also have "\<dots> = map_of d ++ map_of (kv # e)"
    using na by (auto simp: kv map_of_dict_set fun_eq_iff map_add_def split: option.splits)
  finally show ?case .
qed

lemma keys_dict_set:
  "map fst (dict_set k v d) = (if k \<in> fst ` set d then map fst d else map fst d @ [k])"
  by (induction d) (force simp: image_iff)+

lemma distinct_dict_set: "distinct (map fst d) \<Longrightarrow> distinct (map fst (dict_set k v d))"
  by (simp add: keys_dict_set)

section \<open>Localization\<close>




section \<open>Reference lookup\<close>

text \<open>
  Claim C3 says that on a name clash between the target scope (\<^verbatim>\<open>dump_to\<close>) and the read scope
  (\<^verbatim>\<open>read_from\<close>) the target's entry wins. \<^verbatim>\<open>fetch_value\<close> indexes \<^verbatim>\<open>dump_to | read_from\<close>, in
  which the right operand wins: with \<^verbatim>\<open>k\<close> bound to 1 in the target and to 2 in the read
  scope, a field referring to \<^verbatim>\<open>k\<close> does not get the target's 1.
\<close>

theorem fetch_value_target_entry_loses:
  "fetch_value ''y'' [(''value'', VStr ''k''), (''source'', VStr ''field'')]
      [(''k'', VInt 1)] [(''k'', VInt 2)]
     \<noteq> Inr (VStr ''k'', VInt 1)"
  by (simp add: fetch_value_def bindE_def dict_get_def dict_getitem_def dict_union_def
      dict_update_def)

text \<open>
  Claim C3, amended: a field with source \<^verbatim>\<open>field\<close> whose value names the key \<open>r\<close> gets the
  entry of \<open>r\<close> in the read scope when there is one, else the entry of \<open>r\<close> in the target
  scope, and fails with \<^verbatim>\<open>KeyError\<close> (the missing reference) when neither scope has the key.
  (The read scope is a Python dictionary: its keys are distinct.)
\<close>

theorem fetch_value_field_lookup:
  assumes "map_of prop ''source'' = Some (VStr ''field'')"
    and "map_of prop ''value'' = Some (VStr r)"
    and "distinct (map fst read_from)"
  shows "fetch_value key prop dump_to read_from =
     (case map_of read_from r of
        Some v \<Rightarrow> Inr (VStr r, v)
      | None \<Rightarrow> (case map_of dump_to r of
                   Some v \<Rightarrow> Inr (VStr r, v)
                 | None \<Rightarrow> Inl KeyError))"
  using assms
  by (simp add: fetch_value_def bindE_def dict_get_def dict_getitem_def dict_union_def
      map_of_dict_update map_add_def split: option.splits)

theorem fetch_value_field_lookup_witness:
  "fetch_value ''y'' [(''value'', VStr ''k''), (''source'', VStr ''field'')]
      [(''k'', VInt 1), (''j'', VInt 7)] [(''k'', VInt 2)] = Inr (VStr ''k'', VInt 2)
   \<and> fetch_value ''y'' [(''value'', VStr ''j''), (''source'', VStr ''field'')]
      [(''k'', VInt 1), (''j'', VInt 7)] [(''k'', VInt 2)] = Inr (VStr ''j'', VInt 7)
   \<and> fetch_value ''y'' [(''value'', VStr ''z''), (''source'', VStr ''field'')]
      [(''k'', VInt 1), (''j'', VInt 7)] [(''k'', VInt 2)] = Inl KeyError"
  using fetch_value_field_lookup [of "[(''value'', VStr ''k''), (''source'', VStr ''field'')]"
      "''k''" "[(''k'', VInt 2)]" "''y''" "[(''k'', VInt 1), (''j'', VInt 7)]"]
    fetch_value_field_lookup [of "[(''value'', VStr ''j''), (''source'', VStr ''field'')]"
      "''j''" "[(''k'', VInt 2)]" "''y''" "[(''k'', VInt 1), (''j'', VInt 7)]"]
    fetch_value_field_lookup [of "[(''value'', VStr ''z''), (''source'', VStr ''field'')]"
      "''z''" "[(''k'', VInt 2)]" "''y''" "[(''k'', VInt 1), (''j'', VInt 7)]"]
  by simp

section \<open>Keep/delete inference\<close>

lemma referenced_fields_set:
  "referenced_fields fps acc = Inr r \<Longrightarrow>
   (x \<in> set r) =
     (x \<in> set acc \<or> (\<exists>key p. (key, p) \<in> set fps \<and> dict_get_or_None p ''source'' = VStr ''field''
                              \<and> dict_get_or_None p ''value'' = x))"
proof (induction fps arbitrary: acc)
  case Nil
  then show ?case by simp
next
  case (Cons kp fps)
  obtain key pr where kp: "kp = (key, pr)" by (cases kp)
  show ?case
  proof (cases "dict_get_or_None pr ''source'' = VStr ''field''")
    case True
    with Cons.prems kp have h: "hashable (dict_get_or_None pr ''value'')"
      and r: "referenced_fields fps (acc @ [dict_get_or_None pr ''value'']) = Inr r"
      by (simp_all split: if_splits)
    from Cons.IH [OF r] True show ?thesis unfolding kp by auto
  next
    case False
    with Cons.prems kp have r: "referenced_fields fps acc = Inr r" by simp
    from Cons.IH [OF r] False show ?thesis unfolding kp by auto
  qed
qed

lemma default_keep_for_source_False:
  "default_keep_for_source s = Inr b \<Longrightarrow> (\<not> b) = (s = VStr ''field'')"
  by (auto simp: default_keep_for_source_def KEEP_DEFAULT_CLASS_LEVEL_def split: if_splits)

lemma infer_marked_set:
  "infer_marked fps r m = Inr m' \<Longrightarrow>
   m' = m \<union> {s. VStr s \<in> set r \<and>
               (\<exists>own. map_of fps s = Some own \<and> dict_get_or_None own ''source'' = VStr ''field'')}"
proof (induction r arbitrary: m)
  case Nil
  then show ?case by simp
next
  case (Cons field r)
  show ?case
  proof (cases "field_props_get fps field")
    case None
    with Cons.prems have "infer_marked fps r m = Inr m'"
      by (simp add: default_keep_def KEEP_DEFAULT_CLASS_LEVEL_def)
    from Cons.IH [OF this] None show ?thesis
      by (auto simp: field_props_get_def)
  next
    case (Some pr)
    with Cons.prems obtain b where
      b: "default_keep_for_source (dict_get_or_None pr ''source'') = Inr b"
      and rest: "infer_marked fps r
                  (if \<not> b then (case field of VStr s \<Rightarrow> insert s m | _ \<Rightarrow> m) else m) = Inr m'"
      by (auto simp: bindE_def split: sum.splits)
    from Some obtain s where s: "field = VStr s" "map_of fps s = Some pr"
      by (auto simp: field_props_get_def split: pyval.splits)
    from default_keep_for_source_False [OF b]
    have nb: "(\<not> b) = (dict_get_or_None pr ''source'' = VStr ''field'')" .
    from Cons.IH [OF rest] s nb show ?thesis
      by (auto split: if_splits)
  qed
qed

lemma marked_for_delete_iff:
  assumes "resolve_marked_for_delete c = Inr c'"
  shows "k \<in> marked_for_delete c' \<longleftrightarrow>
     k \<notin> explicitly_kept c \<and>
     (k \<in> explicitly_deleted c \<or>
      ((\<exists>key prop. (key, prop) \<in> set (field_props c)
            \<and> dict_get_or_None prop ''source'' = VStr ''field''
            \<and> dict_get_or_None prop ''value'' = VStr k)
       \<and> (\<exists>own. map_of (field_props c) k = Some own
            \<and> dict_get_or_None own ''source'' = VStr ''field'')))"
proof -
  from assms obtain r m where
    r: "referenced_fields (field_props c) [] = Inr r"
    and m: "infer_marked (field_props c) r {} = Inr m"
    and c': "c' = c\<lparr>marked_for_delete := (m \<union> explicitly_deleted c) - explicitly_kept c\<rparr>"
    by (auto simp: resolve_marked_for_delete_def bindE_def split: sum.splits)
  from referenced_fields_set [OF r, of "VStr k"]
  have rs: "VStr k \<in> set r \<longleftrightarrow>
      (\<exists>key prop. (key, prop) \<in> set (field_props c)
            \<and> dict_get_or_None prop ''source'' = VStr ''field''
            \<and> dict_get_or_None prop ''value'' = VStr k)"
    by simp
  from infer_marked_set [OF m]
  have ms: "k \<in> m \<longleftrightarrow> VStr k \<in> set r \<and>
      (\<exists>own. map_of (field_props c) k = Some own
            \<and> dict_get_or_None own ''source'' = VStr ''field'')"
    by simp
  show ?thesis unfolding c' using rs ms by auto
qed


text \<open>
  Claim C2 takes the inferred default of a referenced key from the source kind of the
  \<^emph>\<open>referencing\<close> field, so that in the reference example \<^verbatim>\<open>base\<close>, read by the field-sourced
  \<^verbatim>\<open>doubled\<close>, is marked for deletion. \<^verbatim>\<open>_resolve_marked_for_delete\<close> looks up the descriptor of
  the referenced key itself and applies the policy table to \<^emph>\<open>its\<close> source: \<^verbatim>\<open>base\<close> is a literal,
  is inferred as kept, and is not in the deletion set.
\<close>

theorem example_base_survives:
  "fst (PlotStyle_init 3 (files_env []) (dict_args example_doc ''en'' True) new_world)
     = Inr [(''base'', VInt 10), (''doubled'', VInt 10)]
   \<and> ''base'' \<notin> marked_for_delete
         (ctx (snd (PlotStyle_init 3 (files_env []) (dict_args example_doc ''en'' True) new_world)))"
  by code_simp

text \<open>
  Claim C2, amended: after the documents are merged, a key is marked for deletion exactly when
  it is not explicitly kept and either is explicitly deleted, or is named as the value of some
  field-sourced descriptor and its own recorded descriptor is field-sourced. The inferred
  default thus follows the source kind of the referenced key's own declaration (literal:
  keep, field: delete); in the reference example both \<^verbatim>\<open>base\<close> and \<^verbatim>\<open>doubled\<close> survive.
\<close>

theorem marked_for_delete_by_own_source:
  assumes "resolve_marked_for_delete c = Inr c'"
  shows "k \<in> marked_for_delete c' \<longleftrightarrow>
     k \<notin> explicitly_kept c \<and>
     (k \<in> explicitly_deleted c \<or>
      ((\<exists>key prop. (key, prop) \<in> set (field_props c)
            \<and> dict_get_or_None prop ''source'' = VStr ''field''
            \<and> dict_get_or_None prop ''value'' = VStr k)
       \<and> (\<exists>own. map_of (field_props c) k = Some own
            \<and> dict_get_or_None own ''source'' = VStr ''field'')))"
  using assms by (rule marked_for_delete_iff)

theorem marked_for_delete_by_own_source_witness:
  "resolve_marked_for_delete (new_ParseContext\<lparr>field_props := chain_props\<rparr>)
     = Inr (new_ParseContext\<lparr>field_props := chain_props, marked_for_delete := {''doubled''}\<rparr>)
   \<and> ''doubled'' \<in> marked_for_delete
        (new_ParseContext\<lparr>field_props := chain_props, marked_for_delete := {''doubled''}\<rparr>)
   \<and> ''base'' \<notin> marked_for_delete
        (new_ParseContext\<lparr>field_props := chain_props, marked_for_delete := {''doubled''}\<rparr>)
   \<and> map_of chain_props ''base''
        = Some [(''value'', VInt 10), (''validator'', VStr ''int''), (''source'', VStr ''literal'')]"
proof -
  let ?c = "new_ParseContext\<lparr>field_props := chain_props\<rparr>"
  let ?c' = "new_ParseContext\<lparr>field_props := chain_props, marked_for_delete := {''doubled''}\<rparr>"
  have h: "resolve_marked_for_delete ?c = Inr ?c'"
    by code_simp
  have own: "map_of chain_props ''base''
        = Some [(''value'', VInt 10), (''validator'', VStr ''int''), (''source'', VStr ''literal'')]"
    by (simp add: chain_props_def)
  have kept: "''doubled'' \<notin> explicitly_kept ?c" "''base'' \<notin> explicitly_deleted ?c"
    by (simp_all add: new_ParseContext_def)
  have ref: "(''tripled'', [(''value'', VStr ''doubled''), (''source'', VStr ''field''),
                     (''validator'', VStr ''int'')]) \<in> set (field_props ?c)"
    by (simp add: chain_props_def)
  have own2: "map_of (field_props ?c) ''doubled'' = Some [(''value'', VStr ''base''), (''source'', VStr ''field''),
                     (''validator'', VStr ''int'')]"
    by (simp add: chain_props_def)
  have d: "''doubled'' \<in> marked_for_delete ?c'"
    unfolding marked_for_delete_by_own_source [OF h, of "''doubled''"]
    using kept ref own2 by (auto simp: dict_get_or_None_def intro!: exI)
  have b: "''base'' \<notin> marked_for_delete ?c'"
    unfolding marked_for_delete_by_own_source [OF h, of "''base''"]
    using kept own by (simp add: dict_get_or_None_def)
  from h d b own show ?thesis by blast
qed


section \<open>Validators\<close>

text \<open>
  Claim C7 requires that \<^verbatim>\<open>validate\<close> never raises and that \<^verbatim>\<open>sanitize\<close> never fails and agrees
  with \<^verbatim>\<open>parse\<close> on valid input. Two validators break it. \<^verbatim>\<open>FileformatValidator.validate\<close>
  tests membership in a dictionary without a guard, so an unhashable value such as a list
  raises \<^verbatim>\<open>TypeError\<close>. \<^verbatim>\<open>FigsizeValidator.sanitize\<close> passes every valid value to \<^verbatim>\<open>eval\<close>,
  which raises \<^verbatim>\<open>TypeError\<close> on the tuple \<^verbatim>\<open>(2, 3)\<close> that \<^verbatim>\<open>validate\<close> accepts and \<^verbatim>\<open>parse\<close>
  returns unchanged.
\<close>

theorem validators_raise_at_failing_inputs:
  "FileformatValidator_validate E (VList []) = Inl TypeError
   \<and> FigsizeValidator_validate E (VTuple [VInt 2, VInt 3]) = True
   \<and> FigsizeValidator_parse E (VTuple [VInt 2, VInt 3]) = Inr (VTuple [VInt 2, VInt 3])
   \<and> FigsizeValidator_sanitize E (VTuple [VInt 2, VInt 3]) = Inl TypeError"
  by (simp add: FileformatValidator_validate_def FigsizeValidator_validate_def
      FigsizeValidator_parse_def FigsizeValidator_sanitize_def check_literal_tuple_def
      positive_dim_def safe_eval_def)

section \<open>Applying the deletion set\<close>

text \<open>
  Claim C4: without keep-all-fields the constructor returns the resolved scope minus the
  deletion set. The deletion set is computed as the claim says, but the call that should
  apply it, \<^verbatim>\<open>self._delete_marked_fields()\<close>, omits the method's \<^verbatim>\<open>ctx\<close> argument and raises
  \<^verbatim>\<open>TypeError\<close>: for the document \<^verbatim>\<open>{a: {value: 1, keep: false}, b: 2}\<close> the deletion set is
  \<^verbatim>\<open>{a}\<close>, and construction without keep-all-fields fails instead of returning \<^verbatim>\<open>{b: 2}\<close>;
  with keep-all-fields every resolved key is returned.
\<close>

theorem delete_marked_fields_call_raises:
  "fst (PlotStyle_init 3 (files_env []) (dict_args keep_doc ''en'' False) new_world) = Inl TypeError
   \<and> marked_for_delete (ctx (snd (PlotStyle_init 3 (files_env []) (dict_args keep_doc ''en'' False)
          new_world))) = {''a''}
   \<and> fst (PlotStyle_init 3 (files_env []) (dict_args keep_doc ''en'' True) new_world)
       = Inr [(''a'', VInt 1), (''b'', VInt 2)]"
  by code_simp

section \<open>The file stack\<close>

text \<open>
  Claim C8: the stack of in-progress documents is popped when a chain-include's merge
  returns, also when it fails. The \<^verbatim>\<open>pop\<close> is the last statement of the \<^verbatim>\<open>try\<close> block, so an
  exception before it (here: the included file does not exist) skips it: after the
  document is processed the stack still holds \<^verbatim>\<open>missing.yaml\<close>. When the file exists the
  stack is empty again.
\<close>

theorem failed_include_leaves_path_on_stack:
  "fst (PlotStyle_init 3 (files_env []) (dict_args include_doc ''en'' True) new_world)
     = Inr [(''title'', VStr ''local'')]
   \<and> warned (snd (PlotStyle_init 3 (files_env []) (dict_args include_doc ''en'' True) new_world))
     = [IgnoreField ''shared'' FileNotFoundError]
   \<and> file_stack (ctx (snd (PlotStyle_init 3 (files_env []) (dict_args include_doc ''en'' True)
        new_world))) = [VStr ''missing.yaml'']
   \<and> file_stack (ctx (snd (PlotStyle_init 3
        (files_env [(''missing.yaml'', VDict [(''footer'', VStr ''x'')])])
        (dict_args include_doc ''en'' True) new_world))) = []"
  by code_simp

section \<open>Affix composition\<close>

lemma apply_affixes_append:
  "apply_affixes E p (xs @ ys) = bindE (apply_affixes E p xs) (\<lambda>p'. apply_affixes E p' ys)"
proof (induction xs arbitrary: p)
  case Nil
  show ?case by (simp add: bindE_def)
next
  case (Cons x xs)
  obtain field av where x: "x = (field, av)" by (cases x)
  show ?case
    unfolding x using Cons.IH
    by (simp add: bindE_def split: sum.splits)
qed

lemma PlotStyle_init_after_params:
  assumes "input_validate E a = Inr ()"
    and "init_params depth E a w = (Inr params, w1)"
    and "resolve_marked_for_delete (ctx w1) = Inr c"
  shows "PlotStyle_init depth E a w =
     (let r = apply_affixes E (fst (apply_localization params (affix (ctx w1)) (language a)))
                (snd (apply_localization params (affix (ctx w1)) (language a)));
          w2 = w1\<lparr>ctx := c\<lparr>affix := snd (apply_localization params (affix (ctx w1)) (language a))\<rparr>\<rparr>
      in (case r of
            Inl e \<Rightarrow> (Inl e, w2)
          | Inr decorated \<Rightarrow>
              if \<not> keep_all_fields a then (Inl TypeError, w2)
              else (case set_attributes decorated of
                      Inl e \<Rightarrow> (Inl e, w2)
                    | Inr u \<Rightarrow> (Inr decorated, w2))))"
proof -
  from assms(3) have aff: "affix c = affix (ctx w1)"
    by (auto simp: resolve_marked_for_delete_def bindE_def split: sum.splits)
  show ?thesis
    using assms aff
    by (auto simp: PlotStyle_init_def bindM_def liftM_def retM_def raiseM_def Let_def
        split: sum.splits prod.splits)
qed

text \<open>
  Claim C6: a decoration that cannot be concatenated with the key's value is caught, warned
  about, and the value left undecorated. \<^verbatim>\<open>apply_affixes\<close> has no handler and neither has
  the constructor around it: for the string \<^verbatim>\<open>"Report"\<close> with the integer suffix \<^verbatim>\<open>2\<close> the
  constructor raises \<^verbatim>\<open>TypeError\<close> and returns nothing.
\<close>

theorem affix_type_mismatch_example:
  "fst (PlotStyle_init 3 (files_env []) (dict_args mismatch_doc ''en'' True) new_world)
     = Inl TypeError"
  by code_simp

text \<open>
  Claim C6, amended: for a key with a registered prefix or suffix, when the decorations
  before it have been applied and concatenating this one with the key's localized value
  fails, the failure is not caught: the constructor raises that error and no warning is
  added after the documents were parsed. Concatenating a string with an integer or with a
  list, in either order, is such a failure (\<^verbatim>\<open>TypeError\<close>).
\<close>

theorem affix_type_mismatch_aborts:
  assumes "input_validate E a = Inr ()"
    and "init_params depth E a w = (Inr params, w1)"
    and "resolve_marked_for_delete (ctx w1) = Inr c"
    and "snd (apply_localization params (affix (ctx w1)) (language a)) = pre @ (field, av) # rest"
    and "apply_affixes E (fst (apply_localization params (affix (ctx w1)) (language a))) pre = Inr p"
    and "unpack_affix_key E field = Inr (k, kind)"
    and "kind = ''suffix'' \<or> kind = ''prefix''"
    and "map_of p k = Some old"
    and "(if kind = ''suffix'' then py_add E old av else py_add E av old) = Inl e"
  shows "fst (PlotStyle_init depth E a w) = Inl e
     \<and> warned (snd (PlotStyle_init depth E a w)) = warned w1
     \<and> py_add E (VStr s) (VInt n) = Inl TypeError
     \<and> py_add E (VInt n) (VStr s) = Inl TypeError
     \<and> py_add E (VStr s) (VList xs) = Inl TypeError
     \<and> py_add E (VList xs) (VStr s) = Inl TypeError"
proof -
  let ?lp = "fst (apply_localization params (affix (ctx w1)) (language a))"
  let ?la = "snd (apply_localization params (affix (ctx w1)) (language a))"
  have step: "apply_affixes E p ((field, av) # rest) = Inl e"
    using assms(6-9) by (auto simp: bindE_def dict_get_def split: if_splits)
  have "apply_affixes E ?lp ?la = Inl e"
    unfolding assms(4) apply_affixes_append using assms(5) step by (simp add: bindE_def)
  with PlotStyle_init_after_params [OF assms(1-3)]
  have r: "fst (PlotStyle_init depth E a w) = Inl e"
    "warned (snd (PlotStyle_init depth E a w)) = warned w1"
    by (simp_all add: Let_def)
  have t: "py_add E (VStr s) (VInt n) = Inl TypeError" "py_add E (VInt n) (VStr s) = Inl TypeError"
    "py_add E (VStr s) (VList xs) = Inl TypeError" "py_add E (VList xs) (VStr s) = Inl TypeError"
    by (simp_all add: py_add_def int_value_def is_number_def)
  from r t show ?thesis by blast
qed


theorem affix_type_mismatch_aborts_witness:
  "fst (PlotStyle_init 3 (files_env []) (dict_args mismatch_doc ''en'' True) new_world)
     = Inl TypeError
   \<and> warned (snd (PlotStyle_init 3 (files_env []) (dict_args mismatch_doc ''en'' True) new_world))
     = []
   \<and> init_params 3 (files_env []) (dict_args mismatch_doc ''en'' True) new_world
     = (Inr [(''name'', VStr ''Report''), (''other'', VInt 1)],
        \<lparr>ctx = new_ParseContext
           \<lparr>field_props :=
              [(''name'', [(''value'', VStr ''Report''),
                  (''suffix'', VDict [(''value'', VInt 2), (''validator'', VStr ''int''),
                                      (''source'', VStr ''literal'')]),
                  (''validator'', VStr ''undetermined''), (''source'', VStr ''literal'')]),
               (''other'', as_implicit (VInt 1))],
            affix := [(''name__suffix__'', VInt 2)]\<rparr>,
         warned = []\<rparr>)"
proof -
  let ?E = "files_env []"
  let ?a = "dict_args mismatch_doc ''en'' True"
  let ?params = "[(''name'', VStr ''Report''), (''other'', VInt 1)]"
  let ?c = "new_ParseContext
           \<lparr>field_props :=
              [(''name'', [(''value'', VStr ''Report''),
                  (''suffix'', VDict [(''value'', VInt 2), (''validator'', VStr ''int''),
                                      (''source'', VStr ''literal'')]),
                  (''validator'', VStr ''undetermined''), (''source'', VStr ''literal'')]),
               (''other'', as_implicit (VInt 1))],
            affix := [(''name__suffix__'', VInt 2)]\<rparr>"
  let ?w1 = "\<lparr>ctx = ?c, warned = []\<rparr>"
  have h1: "input_validate ?E ?a = Inr ()" by code_simp
  have h2: "init_params 3 ?E ?a new_world = (Inr ?params, ?w1)" by code_simp
  have h3: "resolve_marked_for_delete (ctx ?w1) = Inr ?c" by code_simp
  have h4: "snd (apply_localization ?params (affix (ctx ?w1)) (language ?a))
              = [] @ (''name__suffix__'', VInt 2) # []" by code_simp
  have h5: "apply_affixes ?E (fst (apply_localization ?params (affix (ctx ?w1)) (language ?a))) []
              = Inr ?params" by code_simp
  have h6: "unpack_affix_key ?E ''name__suffix__'' = Inr (''name'', ''suffix'')" by code_simp
  have h7: "''suffix'' = ''suffix'' \<or> ''suffix'' = ''prefix''" by simp
  have h8: "map_of ?params ''name'' = Some (VStr ''Report'')" by simp
  have h9: "(if ''suffix'' = ''suffix'' then py_add ?E (VStr ''Report'') (VInt 2)
             else py_add ?E (VInt 2) (VStr ''Report'')) = Inl TypeError" by code_simp
  from affix_type_mismatch_aborts [OF h1 h2 h3 h4 h5 h6 h7 h8 h9] h2
  show ?thesis by simp
qed


section \<open>The scope does not depend on the context\<close>

text \<open>
  The resolver writes to the context and reads it at one place only: the \<^verbatim>\<open>pop\<close> that follows
  a chain-include, which finds on the stack at least the path pushed before the include. So
  the outcome of a computation and the scope it builds are the same from any two contexts;
  the lemmas below carry this through the resolver, for two states of which the second has
  a file stack at least as deep as the first.
\<close>

lemma grows_refl: "grows w w"
  by (simp add: grows_def)

lemma grows_trans: "grows a b \<Longrightarrow> grows b c \<Longrightarrow> grows a c"
  by (auto simp: grows_def)

lemma VALIDATORS_pure:
  "map_of (VALIDATORS E) s = Some p \<Longrightarrow> s \<notin> {''dict'', ''gridoptions'', ''plotoptions''}
   \<Longrightarrow> \<exists>f. p = pure_parse f"
  by (auto simp: VALIDATORS_def split: if_splits)

lemma indepM_D:
  assumes "indepM m" "stack_le w w'" "m w = (r, v)"
  shows "\<exists>v'. m w' = (r, v') \<and> stack_le v v' \<and> grows w v"
proof -
  from assms(1,2) have "fst (m w) = fst (m w')" "stack_le (snd (m w)) (snd (m w'))"
    "grows w (snd (m w))"
    by (simp_all add: indepM_def)
  with assms(3) show ?thesis by (cases "m w'") auto
qed

lemma indepT_D:
  assumes "indepT f" "stack_le w w'" "f w = (r, d, v)"
  shows "\<exists>v'. f w' = (r, d, v') \<and> stack_le v v' \<and> grows w v"
proof -
  from assms(1,2) have "fst (f w) = fst (f w')" "fst (snd (f w)) = fst (snd (f w'))"
    "stack_le (snd (snd (f w))) (snd (snd (f w')))" "grows w (snd (snd (f w)))"
    by (simp_all add: indepT_def)
  with assms(3) show ?thesis by (cases "f w'") auto
qed

lemma indepW_D:
  assumes "indepW f" "stack_le w w'"
  shows "stack_le (f w) (f w')" "grows w (f w)"
  using assms by (simp_all add: indepW_def)

lemma indepM_I:
  assumes "\<And>w w' r v. stack_le w w' \<Longrightarrow> m w = (r, v) \<Longrightarrow>
             \<exists>v'. m w' = (r, v') \<and> stack_le v v' \<and> grows w v"
  shows "indepM m"
  unfolding indepM_def
proof (intro allI impI)
  fix w w' assume R: "stack_le w w'"
  obtain r v where mw: "m w = (r, v)" by (cases "m w")
  from assms [OF R mw] obtain v' where "m w' = (r, v')" "stack_le v v'" "grows w v"
    by blast
  with mw show "fst (m w) = fst (m w') \<and> stack_le (snd (m w)) (snd (m w')) \<and> grows w (snd (m w))"
    by simp
qed

lemma indepT_I:
  assumes "\<And>w w' r d v. stack_le w w' \<Longrightarrow> f w = (r, d, v) \<Longrightarrow>
             \<exists>v'. f w' = (r, d, v') \<and> stack_le v v' \<and> grows w v"
  shows "indepT f"
  unfolding indepT_def
proof (intro allI impI)
  fix w w' assume R: "stack_le w w'"
  obtain r d v where fw: "f w = (r, d, v)" by (cases "f w")
  from assms [OF R fw] obtain v' where "f w' = (r, d, v')" "stack_le v v'" "grows w v"
    by blast
  with fw show "fst (f w) = fst (f w') \<and> fst (snd (f w)) = fst (snd (f w'))
        \<and> stack_le (snd (snd (f w))) (snd (snd (f w'))) \<and> grows w (snd (snd (f w)))"
    by simp
qed

lemma indepM_ret: "indepM (retM x)"
  by (simp add: indepM_def retM_def grows_refl)

lemma indepM_raise: "indepM (raiseM e)"
  by (simp add: indepM_def raiseM_def grows_refl)

lemma indepM_lift: "indepM (liftM r)"
  by (simp add: indepM_def liftM_def grows_refl)

lemma indepM_bind:
  assumes "indepM m" "\<And>x. indepM (f x)"
  shows "indepM (bindM m f)"
proof (rule indepM_I)
  fix w w' r v
  assume R: "stack_le w w'" and b: "bindM m f w = (r, v)"
  obtain r1 v1 where mw: "m w = (r1, v1)" by (cases "m w")
  from indepM_D [OF assms(1) R mw] obtain v1' where
    mw': "m w' = (r1, v1')" and R1: "stack_le v1 v1'" and g1: "grows w v1" by blast
  show "\<exists>v'. bindM m f w' = (r, v') \<and> stack_le v v' \<and> grows w v"
  proof (cases r1)
    case (Inl e)
    with b mw mw' R1 g1 show ?thesis by (auto simp: bindM_def)
  next
    case (Inr x)
    with b mw have fx: "f x v1 = (r, v)" by (simp add: bindM_def)
    from indepM_D [OF assms(2) R1 fx] obtain v' where
      "f x v1' = (r, v')" "stack_le v v'" "grows v1 v" by blast
    with Inr mw' g1 show ?thesis by (auto simp: bindM_def intro: grows_trans)
  qed
qed

lemma indepW_warn: "indepW (warn msg)"
  by (simp add: indepW_def stack_le_def warn_def grows_def)

lemma indepW_record_keep: "indepW (record_keep key p)"
  by (auto simp: indepW_def stack_le_def record_keep_def grows_def
      split: option.splits pyval.splits)

lemma indepW_set_field_prop: "indepW (set_field_prop key p)"
  by (simp add: indepW_def stack_le_def set_field_prop_def grows_def)

lemma indepW_set_affix: "indepW (set_affix k v)"
  by (simp add: indepW_def stack_le_def set_affix_def grows_def)

lemma indepW_file_stack_append: "indepW (file_stack_append p)"
  by (simp add: indepW_def stack_le_def file_stack_append_def grows_def)

lemma indepM_then:
  assumes "indepM m" "\<And>r. indepM (g r)"
  shows "indepM (\<lambda>w. g (fst (m w)) (snd (m w)))"
proof (rule indepM_I)
  fix w w' r v
  assume R: "stack_le w w'" and b: "g (fst (m w)) (snd (m w)) = (r, v)"
  obtain r1 v1 where mw: "m w = (r1, v1)" by (cases "m w")
  from indepM_D [OF assms(1) R mw] obtain v1' where
    mw': "m w' = (r1, v1')" and R1: "stack_le v1 v1'" and g1: "grows w v1" by blast
  from b mw have "g r1 v1 = (r, v)" by simp
  from indepM_D [OF assms(2) R1 this] obtain v' where
    "g r1 v1' = (r, v')" "stack_le v v'" "grows v1 v" by blast
  with mw' g1 show "\<exists>v'. g (fst (m w')) (snd (m w')) = (r, v') \<and> stack_le v v' \<and> grows w v"
    by (auto intro: grows_trans)
qed

lemma indepM_DictValidator_validate_items:
  assumes fp: "\<And>v. indepM (fp v)"
  shows "indepM (DictValidator_validate_items fp items)"
proof (induction items)
  case Nil
  show ?case by (simp add: indepM_ret)
next
  case (Cons a items)
  obtain key sub where a: "a = (key, sub)" by (cases a)
  let ?g = "\<lambda>r. case r of Inl e \<Rightarrow> retM False | Inr (x::pydict) \<Rightarrow> DictValidator_validate_items fp items"
  have eq: "DictValidator_validate_items fp (a # items)
      = (\<lambda>w. ?g (fst (fp (VDict [(key, sub)]) w)) (snd (fp (VDict [(key, sub)]) w)))"
    by (auto simp: a fun_eq_iff retM_def split: prod.splits sum.splits)
  have "\<And>r. indepM (?g r)"
    using Cons.IH by (simp add: indepM_ret split: sum.splits)
  from indepM_then [OF fp this] show ?case unfolding eq .
qed

lemma indepM_DictValidator_validate:
  assumes fp: "\<And>v. indepM (fp v)"
  shows "indepM (DictValidator_validate fp v)"
  using indepM_DictValidator_validate_items [OF fp]
  by (simp add: DictValidator_validate_def indepM_ret split: pyval.splits)

lemma indepM_DictValidator_parse_items:
  assumes fp: "\<And>v. indepM (fp v)"
  shows "indepM (DictValidator_parse_items fp items parsed)"
proof (induction items arbitrary: parsed)
  case Nil
  show ?case by (simp add: indepM_ret)
next
  case (Cons a items)
  obtain key sub where a: "a = (key, sub)" by (cases a)
  show ?case
    unfolding a DictValidator_parse_items.simps
    by (intro indepM_bind fp indepM_lift Cons.IH)
qed

lemma indepM_DictValidator_parse:
  assumes fp: "\<And>v. indepM (fp v)"
  shows "indepM (DictValidator_parse fp v)"
  unfolding DictValidator_parse_def
proof (rule indepM_bind [OF indepM_DictValidator_validate [OF fp]])
  fix ok
  show "indepM (if \<not> ok then raiseM ValueError
       else case v of
         VDict d \<Rightarrow> bindM (DictValidator_parse_items fp d []) (\<lambda>parsed. retM (VDict parsed))
       | _ \<Rightarrow> raiseM ValueError)"
    by (auto simp: indepM_raise split: pyval.splits
        intro!: indepM_bind indepM_DictValidator_parse_items [OF fp] indepM_ret)
qed

lemma indepM_Gridoptions_validate_entries:
  assumes fp: "\<And>v. indepM (fp v)"
  shows "indepM (Gridoptions_validate_entries fp items)"
proof (induction items)
  case Nil
  show ?case by (simp add: indepM_ret)
next
  case (Cons a items)
  obtain key sub where a: "a = (key, sub)" by (cases a)
  let ?g = "\<lambda>r. case r of Inl e \<Rightarrow> retM False | Inr (x::pydict) \<Rightarrow> Gridoptions_validate_entries fp items"
  show ?case
  proof (cases "is_dict sub")
    case False
    then show ?thesis by (simp add: a indepM_ret)
  next
    case True
    have eq: "Gridoptions_validate_entries fp (a # items)
      = (\<lambda>w. ?g (fst (fp (VDict [(key, sub)]) w)) (snd (fp (VDict [(key, sub)]) w)))"
      using True by (auto simp: a fun_eq_iff retM_def split: prod.splits sum.splits)
    have "\<And>r. indepM (?g r)"
      using Cons.IH by (simp add: indepM_ret split: sum.splits)
    from indepM_then [OF fp this] show ?thesis unfolding eq .
  qed
qed

lemma indepM_Gridoptions_validate_items:
  assumes fp: "\<And>v. indepM (fp v)"
  shows "indepM (Gridoptions_validate_items fp items)"
proof (induction items)
  case Nil
  show ?case by (simp add: indepM_ret)
next
  case (Cons a items)
  show ?case
  proof (cases a)
    case (VDict d)
    have "\<And>ok. indepM (if \<not> ok then retM False else Gridoptions_validate_items fp items)"
      using Cons.IH by (simp add: indepM_ret)
    then show ?thesis
      unfolding VDict Gridoptions_validate_items.simps pyval.case
      by (intro indepM_bind indepM_Gridoptions_validate_entries [OF fp])
  qed (simp_all add: indepM_ret)
qed

lemma indepM_GridoptionsValidator_validate:
  assumes fp: "\<And>v. indepM (fp v)"
  shows "indepM (GridoptionsValidator_validate fp v)"
  using indepM_Gridoptions_validate_items [OF fp]
  by (simp add: GridoptionsValidator_validate_def indepM_ret split: pyval.splits)

lemma indepM_Gridoptions_parse_entries:
  assumes fp: "\<And>v. indepM (fp v)"
  shows "indepM (Gridoptions_parse_entries fp items parsed)"
proof (induction items arbitrary: parsed)
  case Nil
  show ?case by (simp add: indepM_ret)
next
  case (Cons a items)
  obtain key sub where a: "a = (key, sub)" by (cases a)
  show ?case
    unfolding a Gridoptions_parse_entries.simps
    by (intro indepM_bind fp indepM_lift Cons.IH)
qed

lemma indepM_Gridoptions_parse_items:
  assumes fp: "\<And>v. indepM (fp v)"
  shows "indepM (Gridoptions_parse_items fp items parsed)"
proof (induction items arbitrary: parsed)
  case Nil
  show ?case by (simp add: indepM_ret)
next
  case (Cons a items)
  show ?case
  proof (cases a)
    case (VDict d)
    show ?thesis
      unfolding VDict Gridoptions_parse_items.simps pyval.case
      by (intro indepM_bind indepM_Gridoptions_parse_entries [OF fp] Cons.IH)
  qed (simp_all add: indepM_raise)
qed

lemma indepM_GridoptionsValidator_parse:
  assumes fp: "\<And>v. indepM (fp v)"
  shows "indepM (GridoptionsValidator_parse fp v)"
  unfolding GridoptionsValidator_parse_def
proof (rule indepM_bind [OF indepM_GridoptionsValidator_validate [OF fp]])
  fix ok
  show "indepM (if \<not> ok then raiseM ValueError
       else case v of
         VList xs \<Rightarrow> bindM (Gridoptions_parse_items fp xs []) (\<lambda>parsed_list. retM (VList parsed_list))
       | _ \<Rightarrow> raiseM ValueError)"
    by (auto simp: indepM_raise split: pyval.splits
        intro!: indepM_bind indepM_Gridoptions_parse_items [OF fp] indepM_ret)
qed

lemma indepM_PlotoptionsValidator_parse:
  assumes fp: "\<And>v. indepM (fp v)"
  shows "indepM (PlotoptionsValidator_parse fp v)"
  unfolding PlotoptionsValidator_parse_def
  by (intro indepM_bind fp indepM_ret)

lemma indepM_VALIDATORS:
  assumes fp: "\<And>v. indepM (fp v)"
    and p: "map_of (VALIDATORS E) s = Some parse"
  shows "indepM (parse fp v)"
proof (cases "s \<in> {''dict'', ''gridoptions'', ''plotoptions''}")
  case True
  with p have "parse = DictValidator_parse \<or> parse = GridoptionsValidator_parse
      \<or> parse = PlotoptionsValidator_parse"
    by (auto simp: VALIDATORS_def)
  then show ?thesis
    using indepM_DictValidator_parse [OF fp] indepM_GridoptionsValidator_parse [OF fp]
      indepM_PlotoptionsValidator_parse [OF fp] by auto
next
  case False
  from VALIDATORS_pure [OF p False] obtain f where "parse = pure_parse f" by blast
  then show ?thesis by (simp add: pure_parse_def indepM_lift)
qed

lemma indepM_bind_lift:
  assumes "\<And>x. r = Inr x \<Longrightarrow> indepM (f x)"
  shows "indepM (bindM (liftM r) f)"
proof (cases r)
  case (Inl e)
  then have "bindM (liftM r) f = raiseM e"
    by (simp add: bindM_def liftM_def raiseM_def fun_eq_iff)
  then show ?thesis by (simp add: indepM_raise)
next
  case (Inr x)
  then have "bindM (liftM r) f = f x"
    by (simp add: bindM_def liftM_def fun_eq_iff)
  with assms [OF Inr] show ?thesis by simp
qed

lemma indepM_nested_field_parser:
  assumes D: "indepD D"
  shows "indepM (nested_field_parser D dt h)"
proof (rule indepM_I)
  fix w w' r v
  assume R: "stack_le w w'" and b: "nested_field_parser D dt h w = (r, v)"
  from D have T: "indepT (D h [] (Some dt))" by (simp add: indepD_def)
  obtain r1 d1 v1 where dw: "D h [] (Some dt) w = (r1, d1, v1)" by (cases "D h [] (Some dt) w")
  from indepT_D [OF T R dw] obtain v1' where
    "D h [] (Some dt) w' = (r1, d1, v1')" "stack_le v1 v1'" "grows w v1" by blast
  with b dw show "\<exists>v'. nested_field_parser D dt h w' = (r, v') \<and> stack_le v v' \<and> grows w v"
    by (cases r1) (auto simp: nested_field_parser_def)
qed

lemma indepM_parse_prop_try:
  assumes D: "indepD D"
  shows "indepM (parse_prop_try E D key p name dt rf)"
  unfolding parse_prop_try_def
proof (rule indepM_bind_lift)
  fix validator :: "validator_parse option"
  assume g: "VALIDATORS_get E name = Inr validator"
  show "indepM (case validator of
         None \<Rightarrow> raiseM UnkownValidator
       | Some parse \<Rightarrow>
           bindM (liftM (fetch_value key p dt rf)) (\<lambda>kv.
             parse (nested_field_parser D dt) (snd kv)))"
  proof (cases validator)
    case None
    then show ?thesis by (simp add: indepM_raise)
  next
    case (Some parse)
    with g obtain s where s: "map_of (VALIDATORS E) s = Some parse"
      by (auto simp: VALIDATORS_get_def split: if_splits pyval.splits)
    have "\<And>v. indepM (parse (nested_field_parser D dt) v)"
      by (rule indepM_VALIDATORS [OF indepM_nested_field_parser [OF D] s])
    then show ?thesis
      unfolding Some option.case by (intro indepM_bind indepM_lift)
  qed
qed

lemma indepM_parse_prop:
  assumes D: "indepD D"
  shows "indepM (parse_prop E D key pr dt rf)"
proof (cases "py_getitem pr ''validator''")
  case (Inl e)
  then show ?thesis by (simp add: parse_prop_def indepM_raise)
next
  case (Inr name)
  show ?thesis
  proof (cases pr)
    case (VDict d)
    let ?g = "\<lambda>r. case r of Inl e \<Rightarrow> raiseM (ParseError e) | Inr (v::pyval) \<Rightarrow> retM v"
    have eq: "parse_prop E D key pr dt rf
        = (\<lambda>w. ?g (fst (parse_prop_try E D key d name dt rf w))
                  (snd (parse_prop_try E D key d name dt rf w)))"
      using Inr VDict
      by (auto simp: parse_prop_def fun_eq_iff raiseM_def retM_def split: prod.splits sum.splits)
    have "\<And>r. indepM (?g r)"
      by (simp add: indepM_ret indepM_raise split: sum.splits)
    from indepM_then [OF indepM_parse_prop_try [OF D] this] show ?thesis unfolding eq .
  qed (use Inr in \<open>simp_all add: parse_prop_def indepM_raise\<close>)
qed

lemma indepW_I:
  assumes "\<And>w w'. stack_le w w' \<Longrightarrow> stack_le (f w) (f w') \<and> grows w (f w)"
  shows "indepW f"
  using assms by (simp add: indepW_def)

lemma indepW_comp:
  assumes "indepW f" "indepW g"
  shows "indepW (\<lambda>w. g (f w))"
proof (rule indepW_I)
  fix w w' assume R: "stack_le w w'"
  from indepW_D [OF assms(1) R] have 1: "stack_le (f w) (f w')" "grows w (f w)" .
  from indepW_D [OF assms(2) 1(1)] 1(2)
  show "stack_le (g (f w)) (g (f w')) \<and> grows w (g (f w))"
    by (auto intro: grows_trans)
qed

lemma indepW_after_M:
  assumes "indepM m" "\<And>r. indepW (g r)"
  shows "indepW (\<lambda>w. g (fst (m w)) (snd (m w)))"
proof (rule indepW_I)
  fix w w' assume R: "stack_le w w'"
  obtain r1 v1 where mw: "m w = (r1, v1)" by (cases "m w")
  from indepM_D [OF assms(1) R mw] obtain v1' where
    mw': "m w' = (r1, v1')" and R1: "stack_le v1 v1'" and g1: "grows w v1" by blast
  from indepW_D [OF assms(2) R1, of r1] mw mw' g1
  show "stack_le (g (fst (m w)) (snd (m w))) (g (fst (m w')) (snd (m w')))
        \<and> grows w (g (fst (m w)) (snd (m w)))"
    by (auto intro: grows_trans)
qed

lemma indepW_id: "indepW (\<lambda>w. w)"
  by (simp add: indepW_def grows_refl)

lemma indepW_register_affix:
  assumes D: "indepD D"
  shows "indepW (register_affix E D key p dt rf affix_type)"
proof (cases "map_of p affix_type")
  case None
  then have "register_affix E D key p dt rf affix_type = (\<lambda>w. w)"
    by (simp add: register_affix_def fun_eq_iff)
  then show ?thesis by (simp add: indepW_id)
next
  case (Some a)
  show ?thesis
  proof (cases "a = VDict []")
    case True
    with Some have "register_affix E D key p dt rf affix_type = (\<lambda>w. w)"
      by (simp add: register_affix_def fun_eq_iff)
    then show ?thesis by (simp add: indepW_id)
  next
    case False
    let ?g = "\<lambda>r. case r of Inl e \<Rightarrow> warn (IgnoreField (key @ ''.'' @ affix_type) e)
                          | Inr v \<Rightarrow> set_affix (format_key key affix_type) v"
    have eq: "register_affix E D key p dt rf affix_type
        = (\<lambda>w. ?g (fst (parse_prop E D key a dt rf w)) (snd (parse_prop E D key a dt rf w)))"
      using Some False
      by (auto simp: register_affix_def fun_eq_iff split: prod.splits sum.splits)
    have "\<And>r. indepW (?g r)"
      by (simp add: indepW_warn indepW_set_affix split: sum.splits)
    from indepW_after_M [OF indepM_parse_prop [OF D] this] show ?thesis unfolding eq .
  qed
qed

lemma indepW_register_affixable:
  assumes D: "indepD D"
  shows "indepW (register_affixable E D key p dt rf)"
proof -
  have "register_affixable E D key p dt rf
      = (\<lambda>w. register_affix E D key p dt rf ''suffix'' (register_affix E D key p dt rf ''prefix'' w))"
    by (simp add: register_affixable_def fun_eq_iff)
  then show ?thesis
    using indepW_comp [OF indepW_register_affix [OF D] indepW_register_affix [OF D]] by simp
qed

lemma indepT_ret: "indepT (\<lambda>w. (r, d, w))"
  by (simp add: indepT_def grows_refl)

lemma stack_le_pop:
  assumes R: "stack_le v v'" and ne: "file_stack (ctx v) \<noteq> []"
  shows "\<exists>u u'. file_stack_pop v = Inr u \<and> file_stack_pop v' = Inr u' \<and> stack_le u u'
           \<and> file_stack (ctx u) = butlast (file_stack (ctx v))"
  using assms by (auto simp: stack_le_def file_stack_pop_def butlast_append)

lemma indepT_include_paths:
  assumes D: "indepD D"
  shows "indepT (include_paths E D cf paths dt)"
proof (induction paths arbitrary: dt)
  case Nil
  show ?case by (simp add: indepT_def grows_refl)
next
  case (Cons path rest)
  show ?case
  proof (rule indepT_I)
    fix w w' r d v
    assume R: "stack_le w w'" and b: "include_paths E D cf (path # rest) dt w = (r, d, v)"
    let ?w1 = "file_stack_append path w" and ?w1' = "file_stack_append path w'"
    from indepW_D [OF indepW_file_stack_append R]
    have R1: "stack_le ?w1 ?w1'" and g1: "grows w ?w1" by blast+
    let ?load = "bindE (resolve_yaml_path E path cf) (\<lambda>resolved.
           bindE (YamlValidator_parse E (VStr resolved)) (\<lambda>checked. load_yaml E checked))"
    show "\<exists>v'. include_paths E D cf (path # rest) dt w' = (r, d, v')
            \<and> stack_le v v' \<and> grows w v"
    proof (cases ?load)
      case (Inl e)
      with b R1 g1 show ?thesis by (auto simp: Let_def)
    next
      case (Inr included)
      from D have T: "indepT (D (VDict included) dt None)" by (simp add: indepD_def)
      obtain r2 d2 w2 where dw: "D (VDict included) dt None ?w1 = (r2, d2, w2)"
        by (cases "D (VDict included) dt None ?w1")
      from indepT_D [OF T R1 dw] obtain w2' where
        dw': "D (VDict included) dt None ?w1' = (r2, d2, w2')"
        and R2: "stack_le w2 w2'" and g2: "grows ?w1 w2" by blast
      from g1 g2 have gw2: "grows w w2" by (rule grows_trans)
      show ?thesis
      proof (cases r2)
        case (Inl e)
        with b Inr dw dw' R2 gw2 show ?thesis by (auto simp: Let_def)
      next
        case u: (Inr u)
        from g2 obtain ext where ext: "file_stack (ctx w2) = (file_stack (ctx w) @ [path]) @ ext"
          by (auto simp: grows_def file_stack_append_def)
        then have ne: "file_stack (ctx w2) \<noteq> []" by simp
        from stack_le_pop [OF R2 ne] obtain w3 w3' where
          p: "file_stack_pop w2 = Inr w3" and p': "file_stack_pop w2' = Inr w3'"
          and R3: "stack_le w3 w3'"
          and s3: "file_stack (ctx w3) = butlast (file_stack (ctx w2))" by blast
        from s3 ext have g3: "grows w w3"
          by (cases ext rule: rev_cases) (auto simp: grows_def butlast_append)
        from b Inr dw u p have rec: "include_paths E D cf rest d2 w3 = (r, d, v)"
          by (simp add: Let_def)
        from indepT_D [OF Cons.IH R3 rec] obtain v' where
          "include_paths E D cf rest d2 w3' = (r, d, v')" "stack_le v v'" "grows w3 v"
          by blast
        with Inr dw' u p' g3 show ?thesis
          by (auto simp: Let_def intro: grows_trans)
      qed
    qed
  qed
qed

lemma indepT_chain_include:
  assumes D: "indepD D"
  shows "indepT (chain_include E D cf key p dt rf)"
proof (cases "fetch_value key p dt rf")
  case (Inl e)
  then have "chain_include E D cf key p dt rf = (\<lambda>w. (Inl e, dt, w))"
    by (simp add: chain_include_def fun_eq_iff)
  then show ?thesis by (simp add: indepT_ret)
next
  case (Inr kv)
  then have "chain_include E D cf key p dt rf
      = include_paths E D cf (case snd kv of VList paths \<Rightarrow> paths | v \<Rightarrow> [v]) dt"
    by (simp add: chain_include_def fun_eq_iff)
  then show ?thesis by (simp add: indepT_include_paths [OF D])
qed

lemma indepM_maybe_warn: "indepM (\<lambda>w. (Inr x, if c then warn msg w else w))"
  by (simp add: indepM_def stack_le_def warn_def grows_def)

lemma indepM_normalize_prop: "indepM (normalize_prop key raw)"
proof (cases raw)
  case (VDict d)
  then show ?thesis
    by (simp add: normalize_prop_def indepM_ret indepM_maybe_warn)
next
  case (VTagged intent v)
  then show ?thesis
    by (simp add: normalize_prop_def indepM_ret indepM_raise split: FieldIntent.splits pyval.splits)
qed (simp_all add: normalize_prop_def indepM_ret)

lemma indepT_dump_field:
  assumes D: "indepD D"
  shows "indepT (dump_field E D cf rf key raw dt)"
proof (rule indepT_I)
  fix w w' r d v
  assume R: "stack_le w w'" and b: "dump_field E D cf rf key raw dt w = (r, d, v)"
  have N: "indepM (normalize_prop key raw)" by (rule indepM_normalize_prop)
  obtain r1 w1 where n: "normalize_prop key raw w = (r1, w1)" by (cases "normalize_prop key raw w")
  from indepM_D [OF N R n] obtain w1' where
    n': "normalize_prop key raw w' = (r1, w1')" and R1: "stack_le w1 w1'"
    and g1: "grows w w1" by blast
  show "\<exists>v'. dump_field E D cf rf key raw dt w' = (r, d, v') \<and> stack_le v v' \<and> grows w v"
  proof (cases r1)
    case (Inl e)
    with b n n' R1 g1 show ?thesis by (auto simp: dump_field_def)
  next
    case (Inr p)
    let ?w2 = "set_field_prop key p w1" and ?w2' = "set_field_prop key p w1'"
    from indepW_D [OF indepW_set_field_prop R1]
    have R2: "stack_le ?w2 ?w2'" and g2: "grows w1 ?w2" by blast+
    from g1 g2 have gw2: "grows w ?w2" by (rule grows_trans)
    show ?thesis
    proof (cases "dict_get p ''validator'' = Inr (VStr ''yaml'')")
      case True
      obtain r3 d3 w3 where c: "chain_include E D cf key p dt (reads rf dt) ?w2 = (r3, d3, w3)"
        by (cases "chain_include E D cf key p dt (reads rf dt) ?w2")
      from indepT_D [OF indepT_chain_include [OF D] R2 c] obtain w3' where
        c': "chain_include E D cf key p dt (reads rf dt) ?w2' = (r3, d3, w3')"
        and R3: "stack_le w3 w3'" and g3: "grows ?w2 w3" by blast
      from gw2 g3 have gw3: "grows w w3" by (rule grows_trans)
      show ?thesis
      proof (cases r3)
        case (Inl e)
        from indepW_D [OF indepW_warn R3, of "IgnoreField key e"] gw3
        have "stack_le (warn (IgnoreField key e) w3) (warn (IgnoreField key e) w3')"
          "grows w (warn (IgnoreField key e) w3)"
          by (auto intro: grows_trans)
        with b n n' Inr True c c' Inl show ?thesis
          by (auto simp: dump_field_def Let_def)
      next
        case u: (Inr u)
        from indepW_D [OF indepW_record_keep R3, of key p] gw3
        have "stack_le (record_keep key p w3) (record_keep key p w3')"
          "grows w (record_keep key p w3)"
          by (auto intro: grows_trans)
        with b n n' Inr True c c' u show ?thesis
          by (auto simp: dump_field_def Let_def)
      qed
    next
      case False
      obtain r3 w3 where c: "parse_prop E D key (VDict p) dt (reads rf dt) ?w2 = (r3, w3)"
        by (cases "parse_prop E D key (VDict p) dt (reads rf dt) ?w2")
      from indepM_D [OF indepM_parse_prop [OF D] R2 c] obtain w3' where
        c': "parse_prop E D key (VDict p) dt (reads rf dt) ?w2' = (r3, w3')"
        and R3: "stack_le w3 w3'" and g3: "grows ?w2 w3" by blast
      from gw2 g3 have gw3: "grows w w3" by (rule grows_trans)
      show ?thesis
      proof (cases r3)
        case (Inl e)
        from indepW_D [OF indepW_warn R3, of "IgnoreField key e"] gw3
        have "stack_le (warn (IgnoreField key e) w3) (warn (IgnoreField key e) w3')"
          "grows w (warn (IgnoreField key e) w3)"
          by (auto intro: grows_trans)
        with b n n' Inr False c c' Inl show ?thesis
          by (auto simp: dump_field_def Let_def)
      next
        case pv: (Inr parsed_value)
        let ?d3 = "dict_set key parsed_value dt"
        let ?reg = "register_affixable E D key p ?d3 (reads rf ?d3)"
        from indepW_D [OF indepW_register_affixable [OF D] R3, of E key p ?d3 "reads rf ?d3"]
        have R4: "stack_le (?reg w3) (?reg w3')" and g4: "grows w3 (?reg w3)" by blast+
        from indepW_D [OF indepW_record_keep R4, of key p] gw3 g4
        have "stack_le (record_keep key p (?reg w3)) (record_keep key p (?reg w3'))"
          "grows w (record_keep key p (?reg w3))"
          by (auto intro: grows_trans)
        with b n n' Inr False c c' pv show ?thesis
          by (auto simp: dump_field_def Let_def)
      qed
    qed
  qed
qed

lemma indepT_dump_fields:
  assumes D: "indepD D"
  shows "indepT (dump_fields E D cf rf flds dt)"
proof (induction flds arbitrary: dt)
  case Nil
  show ?case by (simp add: indepT_def grows_refl)
next
  case (Cons a flds)
  obtain key raw where a: "a = (key, raw)" by (cases a)
  show ?case
  proof (rule indepT_I)
    fix w w' r d v
    assume R: "stack_le w w'" and b: "dump_fields E D cf rf (a # flds) dt w = (r, d, v)"
    obtain r1 d1 w1 where f: "dump_field E D cf rf key raw dt w = (r1, d1, w1)"
      by (cases "dump_field E D cf rf key raw dt w")
    from indepT_D [OF indepT_dump_field [OF D] R f] obtain w1' where
      f': "dump_field E D cf rf key raw dt w' = (r1, d1, w1')"
      and R1: "stack_le w1 w1'" and g1: "grows w w1" by blast
    show "\<exists>v'. dump_fields E D cf rf (a # flds) dt w' = (r, d, v')
            \<and> stack_le v v' \<and> grows w v"
    proof (cases r1)
      case (Inl e)
      with b a f f' R1 g1 show ?thesis by auto
    next
      case (Inr u)
      with b a f have rec: "dump_fields E D cf rf flds d1 w1 = (r, d, v)" by simp
      from indepT_D [OF Cons.IH R1 rec] obtain v' where
        "dump_fields E D cf rf flds d1 w1' = (r, d, v')" "stack_le v v'" "grows w1 v"
        by blast
      with Inr a f' g1 show ?thesis by (auto intro: grows_trans)
    qed
  qed
qed

lemma indepD_dump_to_dict_body:
  assumes D: "indepD D"
  shows "indepD (dump_to_dict_body E D cf)"
  unfolding indepD_def
proof (intro allI)
  fix h dt rf
  show "indepT (dump_to_dict_body E D cf h dt rf)"
  proof (cases "py_dict E h")
    case (Inl e)
    then have "dump_to_dict_body E D cf h dt rf = (\<lambda>w. (Inl e, dt, w))"
      by (simp add: dump_to_dict_body_def fun_eq_iff)
    then show ?thesis by (simp add: indepT_ret)
  next
    case (Inr hd)
    then have "dump_to_dict_body E D cf h dt rf = dump_fields E D cf rf (ignore_configs hd) dt"
      by (simp add: dump_to_dict_body_def fun_eq_iff)
    then show ?thesis by (simp add: indepT_dump_fields [OF D])
  qed
qed

lemma indepD_dump_to_dict: "indepD (dump_to_dict depth E cf)"
proof (induction depth)
  case 0
  show ?case by (simp add: indepD_def indepT_ret)
next
  case (Suc depth)
  from indepD_dump_to_dict_body [OF Suc] show ?case by simp
qed

section \<open>Isolation of per-field failures\<close>

lemma normalize_prop_normalizable:
  "normalizable raw \<Longrightarrow> \<exists>p w1. normalize_prop key raw w = (Inr p, w1)"
  by (auto simp: normalizable_def normalize_prop_def retM_def raiseM_def
      split: pyval.splits FieldIntent.splits)

lemma dump_field_after_normalize:
  "normalize_prop key raw w = (Inr p, w1) \<Longrightarrow>
   fst (dump_field E dumper cf rf key raw dt w) = Inr ()"
  by (simp add: dump_field_def Let_def split: prod.splits sum.splits)

lemma dump_fields_returns:
  "\<forall>kr \<in> set flds. normalizable (snd kr) \<Longrightarrow>
   fst (dump_fields E dumper cf rf flds dt w) = Inr ()"
proof (induction flds arbitrary: dt w)
  case Nil
  show ?case by simp
next
  case (Cons kr flds)
  obtain key raw where kr: "kr = (key, raw)" by (cases kr)
  from Cons.prems kr have n: "normalizable raw" by simp
  from normalize_prop_normalizable [OF n] obtain p w1 where
    "normalize_prop key raw w = (Inr p, w1)" by blast
  from dump_field_after_normalize [OF this]
  have f: "fst (dump_field E dumper cf rf key raw dt w) = Inr ()" .
  obtain r d1 w2 where df: "dump_field E dumper cf rf key raw dt w = (r, d1, w2)"
    by (cases "dump_field E dumper cf rf key raw dt w")
  with f have r: "r = Inr ()" by simp
  from Cons.prems have "\<forall>kr \<in> set flds. normalizable (snd kr)" by simp
  from Cons.IH [OF this] show ?case
    by (simp add: kr df r)
qed

lemma dump_fields_append:
  "dump_fields E D cf rf (pre @ flds) dt w =
     (case dump_fields E D cf rf pre dt w of
        (Inl e, d, w') \<Rightarrow> (Inl e, d, w')
      | (Inr u, d, w') \<Rightarrow> dump_fields E D cf rf flds d w')"
proof (induction pre arbitrary: dt w)
  case Nil
  show ?case by simp
next
  case (Cons a pre)
  obtain key raw where a: "a = (key, raw)" by (cases a)
  show ?case
    by (simp add: a Cons.IH split: prod.splits sum.splits)
qed

lemma dump_fields_any_context:
  "fst (dump_fields E (dump_to_dict depth E cf) cf rf flds dt w)
     = fst (dump_fields E (dump_to_dict depth E cf) cf rf flds dt w')
   \<and> fst (snd (dump_fields E (dump_to_dict depth E cf) cf rf flds dt w))
     = fst (snd (dump_fields E (dump_to_dict depth E cf) cf rf flds dt w'))"
proof -
  have T: "indepT (dump_fields E (dump_to_dict depth E cf) cf rf flds dt)"
    by (rule indepT_dump_fields [OF indepD_dump_to_dict])
  have "stack_le w w' \<or> stack_le w' w" by (auto simp: stack_le_def)
  then show ?thesis
  proof
    assume "stack_le w w'"
    with T show ?thesis by (simp add: indepT_def)
  next
    assume "stack_le w' w"
    with T show ?thesis by (simp add: indepT_def)
  qed
qed

lemma failing_field_omitted:
  assumes pre: "dump_fields E (dump_to_dict depth E cf) cf rf pre dt w = (Inr (), d0, w0)"
    and n: "normalize_prop key raw w0 = (Inr p, w1)"
    and ny: "dict_get p ''validator'' \<noteq> Inr (VStr ''yaml'')"
    and f: "fst (parse_prop E (dump_to_dict depth E cf) key (VDict p) d0 (reads rf d0)
                  (set_field_prop key p w1)) = Inl e"
  shows "fst (dump_fields E (dump_to_dict depth E cf) cf rf (pre @ (key, raw) # rest) dt w)
           = fst (dump_fields E (dump_to_dict depth E cf) cf rf (pre @ rest) dt w)
     \<and> fst (snd (dump_fields E (dump_to_dict depth E cf) cf rf (pre @ (key, raw) # rest) dt w))
           = fst (snd (dump_fields E (dump_to_dict depth E cf) cf rf (pre @ rest) dt w))"
proof -
  let ?D = "dump_to_dict depth E cf"
  obtain r3 w3 where pp: "parse_prop E ?D key (VDict p) d0 (reads rf d0) (set_field_prop key p w1)
      = (r3, w3)" by (cases "parse_prop E ?D key (VDict p) d0 (reads rf d0) (set_field_prop key p w1)")
  with f have r3: "r3 = Inl e" by simp
  have 1: "dump_fields E ?D cf rf (pre @ (key, raw) # rest) dt w
      = dump_fields E ?D cf rf rest d0 (warn (IgnoreField key e) w3)"
    using pre n ny pp r3 by (simp add: dump_fields_append dump_field_def Let_def)
  have 2: "dump_fields E ?D cf rf (pre @ rest) dt w = dump_fields E ?D cf rf rest d0 w0"
    using pre by (simp add: dump_fields_append)
  from dump_fields_any_context [of E depth cf rf rest d0 "warn (IgnoreField key e) w3" w0]
  show ?thesis unfolding 1 2 .
qed

text \<open>
  Claim C1 has every per-field failure, those of normalization included, caught locally, so
  that a field tagged \<^verbatim>\<open>!explicit\<close> whose payload lacks \<^verbatim>\<open>value\<close> does not abort the
  resolution. \<^verbatim>\<open>normalize_prop\<close> is called outside the two \<^verbatim>\<open>try\<close> blocks of the loop: for a
  document with such a field between two plain fields the constructor raises \<^verbatim>\<open>ValueError\<close>
  and returns no scope.
\<close>

theorem explicit_tag_without_value_aborts:
  "fst (PlotStyle_init 3 (files_env []) (dict_args bad_tag_doc ''en'' True) new_world)
     = Inl ValueError"
  by code_simp

text \<open>
  Claim C1, amended: while the fields of a document are processed, a failure in fetching a
  field's value (a missing reference included), in finding its validator or in parsing is
  caught at that field: a warning naming the field is issued, the scope is left as it was,
  and processing goes on with the next field; the outcome and the scope are then those of
  the same document without the failing field, so every other field gets its full value,
  and a field that parses is stored in the scope under its key. A failure of a chain-include
  is caught in the same way, the scope keeping what the include had merged before it failed;
  a failure in parsing a prefix or suffix is caught at that affix, with a warning naming the
  field and the affix. A document all of whose entries can be normalized is therefore always
  processed to the end. A failure of normalization (an entry tagged explicit whose payload
  is not a mapping with a \<^verbatim>\<open>value\<close> key) is not caught: it ends the processing of the
  document with that error.
\<close>

theorem value_failures_isolated:
  "((\<forall>kr \<in> set flds. normalizable (snd kr)) \<longrightarrow>
      fst (dump_fields E dumper cf rf flds dt w) = Inr ())
   \<and> (normalize_prop key raw w = (Inr p, w1)
        \<and> dict_get p ''validator'' \<noteq> Inr (VStr ''yaml'')
        \<and> parse_prop E dumper key (VDict p) dt (reads rf dt) (set_field_prop key p w1)
            = (Inl e, w3) \<longrightarrow>
      dump_fields E dumper cf rf ((key, raw) # rest) dt w
        = dump_fields E dumper cf rf rest dt (warn (IgnoreField key e) w3))
   \<and> (normalize_prop key raw w = (Inr p, w1)
        \<and> dict_get p ''validator'' = Inr (VStr ''yaml'')
        \<and> chain_include E dumper cf key p dt (reads rf dt) (set_field_prop key p w1)
            = (Inl e, d3, w3) \<longrightarrow>
      dump_fields E dumper cf rf ((key, raw) # rest) dt w
        = dump_fields E dumper cf rf rest d3 (warn (IgnoreField key e) w3))
   \<and> (normalize_prop key raw w = (Inl e, w1) \<longrightarrow>
      dump_fields E dumper cf rf ((key, raw) # rest) dt w = (Inl e, dt, w1))
   \<and> (normalize_prop key raw w = (Inr p, w1)
        \<and> dict_get p ''validator'' \<noteq> Inr (VStr ''yaml'')
        \<and> parse_prop E dumper key (VDict p) dt (reads rf dt) (set_field_prop key p w1)
            = (Inr v, w3) \<longrightarrow>
      dump_fields E dumper cf rf ((key, raw) # rest) dt w
        = dump_fields E dumper cf rf rest (dict_set key v dt)
            (record_keep key p
               (register_affixable E dumper key p (dict_set key v dt)
                  (reads rf (dict_set key v dt)) w3)))
   \<and> (dump_fields E (dump_to_dict depth E cf) cf rf pre dt w = (Inr (), d0, w0)
        \<and> normalize_prop key raw w0 = (Inr p, w4)
        \<and> dict_get p ''validator'' \<noteq> Inr (VStr ''yaml'')
        \<and> fst (parse_prop E (dump_to_dict depth E cf) key (VDict p) d0 (reads rf d0)
                 (set_field_prop key p w4)) = Inl e \<longrightarrow>
      fst (dump_fields E (dump_to_dict depth E cf) cf rf (pre @ (key, raw) # rest) dt w)
        = fst (dump_fields E (dump_to_dict depth E cf) cf rf (pre @ rest) dt w)
      \<and> fst (snd (dump_fields E (dump_to_dict depth E cf) cf rf (pre @ (key, raw) # rest) dt w))
        = fst (snd (dump_fields E (dump_to_dict depth E cf) cf rf (pre @ rest) dt w)))
   \<and> (map_of p affix_type = Some a \<and> a \<noteq> VDict []
        \<and> parse_prop E dumper key a dt (reads rf dt) w = (Inl e, w3) \<longrightarrow>
      register_affix E dumper key p dt (reads rf dt) affix_type w
        = warn (IgnoreField (key @ ''.'' @ affix_type) e) w3)"
proof -
  have a: "(\<forall>kr \<in> set flds. normalizable (snd kr)) \<longrightarrow>
      fst (dump_fields E dumper cf rf flds dt w) = Inr ()"
    using dump_fields_returns by blast
  have b: "normalize_prop key raw w = (Inr p, w1)
        \<and> dict_get p ''validator'' \<noteq> Inr (VStr ''yaml'')
        \<and> parse_prop E dumper key (VDict p) dt (reads rf dt) (set_field_prop key p w1)
            = (Inl e, w3) \<longrightarrow>
      dump_fields E dumper cf rf ((key, raw) # rest) dt w
        = dump_fields E dumper cf rf rest dt (warn (IgnoreField key e) w3)"
    by (simp add: dump_field_def Let_def)
  have c: "normalize_prop key raw w = (Inr p, w1)
        \<and> dict_get p ''validator'' = Inr (VStr ''yaml'')
        \<and> chain_include E dumper cf key p dt (reads rf dt) (set_field_prop key p w1)
            = (Inl e, d3, w3) \<longrightarrow>
      dump_fields E dumper cf rf ((key, raw) # rest) dt w
        = dump_fields E dumper cf rf rest d3 (warn (IgnoreField key e) w3)"
    by (simp add: dump_field_def Let_def)
  have d: "normalize_prop key raw w = (Inl e, w1) \<longrightarrow>
      dump_fields E dumper cf rf ((key, raw) # rest) dt w = (Inl e, dt, w1)"
    by (simp add: dump_field_def)
  have s: "normalize_prop key raw w = (Inr p, w1)
        \<and> dict_get p ''validator'' \<noteq> Inr (VStr ''yaml'')
        \<and> parse_prop E dumper key (VDict p) dt (reads rf dt) (set_field_prop key p w1)
            = (Inr v, w3) \<longrightarrow>
      dump_fields E dumper cf rf ((key, raw) # rest) dt w
        = dump_fields E dumper cf rf rest (dict_set key v dt)
            (record_keep key p
               (register_affixable E dumper key p (dict_set key v dt)
                  (reads rf (dict_set key v dt)) w3))"
    by (simp add: dump_field_def Let_def)
  have f: "dump_fields E (dump_to_dict depth E cf) cf rf pre dt w = (Inr (), d0, w0)
        \<and> normalize_prop key raw w0 = (Inr p, w4)
        \<and> dict_get p ''validator'' \<noteq> Inr (VStr ''yaml'')
        \<and> fst (parse_prop E (dump_to_dict depth E cf) key (VDict p) d0 (reads rf d0)
                 (set_field_prop key p w4)) = Inl e \<longrightarrow>
      fst (dump_fields E (dump_to_dict depth E cf) cf rf (pre @ (key, raw) # rest) dt w)
        = fst (dump_fields E (dump_to_dict depth E cf) cf rf (pre @ rest) dt w)
      \<and> fst (snd (dump_fields E (dump_to_dict depth E cf) cf rf (pre @ (key, raw) # rest) dt w))
        = fst (snd (dump_fields E (dump_to_dict depth E cf) cf rf (pre @ rest) dt w))"
    using failing_field_omitted by blast
  have g: "map_of p affix_type = Some a \<and> a \<noteq> VDict []
        \<and> parse_prop E dumper key a dt (reads rf dt) w = (Inl e, w3) \<longrightarrow>
      register_affix E dumper key p dt (reads rf dt) affix_type w
        = warn (IgnoreField (key @ ''.'' @ affix_type) e) w3"
    by (simp add: register_affix_def)
  from a b c d s f g show ?thesis by blast
qed

theorem value_failures_isolated_witness:
  "fst (dump_fields (files_env []) (dump_to_dict 2 (files_env []) (VStr ''plotstyle_configs''))
          (VStr ''plotstyle_configs'') None
          [(''broken'', VDict [(''value'', VInt 1), (''validator'', VStr ''nosuch'')]),
           (''footer'', VStr ''x'')]
          [(''title'', VStr ''local'')] new_world) = Inr ()
   \<and> dump_fields (files_env []) (dump_to_dict 2 (files_env []) (VStr ''plotstyle_configs''))
          (VStr ''plotstyle_configs'') None
          [(''broken'', VDict [(''value'', VInt 1), (''validator'', VStr ''nosuch'')]),
           (''footer'', VStr ''x'')]
          [(''title'', VStr ''local'')] new_world
       = dump_fields (files_env []) (dump_to_dict 2 (files_env []) (VStr ''plotstyle_configs''))
          (VStr ''plotstyle_configs'') None [(''footer'', VStr ''x'')]
          [(''title'', VStr ''local'')]
          (warn (IgnoreField ''broken'' (ParseError UnkownValidator))
             (set_field_prop ''broken''
                [(''value'', VInt 1), (''validator'', VStr ''nosuch''),
                 (''source'', VStr ''literal'')] new_world))
   \<and> dump_fields (files_env []) (dump_to_dict 2 (files_env []) (VStr ''plotstyle_configs''))
          (VStr ''plotstyle_configs'') None
          [(''shared'', VDict [(''value'', VStr ''missing.yaml''), (''validator'', VStr ''yaml'')]),
           (''title'', VStr ''local'')] [] new_world
       = dump_fields (files_env []) (dump_to_dict 2 (files_env []) (VStr ''plotstyle_configs''))
          (VStr ''plotstyle_configs'') None [(''title'', VStr ''local'')] []
          (warn (IgnoreField ''shared'' FileNotFoundError)
             (file_stack_append (VStr ''missing.yaml'')
               (set_field_prop ''shared''
                  [(''value'', VStr ''missing.yaml''), (''validator'', VStr ''yaml''),
                   (''source'', VStr ''literal'')] new_world)))
   \<and> dump_fields (files_env []) (dump_to_dict 2 (files_env []) (VStr ''plotstyle_configs''))
          (VStr ''plotstyle_configs'') None
          [(''broken'', VTagged EXPLICIT (VDict [(''validator'', VStr ''str'')])),
           (''footer'', VStr ''x'')]
          [(''title'', VStr ''local'')] new_world
       = (Inl ValueError, [(''title'', VStr ''local'')], new_world)
   \<and> dump_fields (files_env []) (dump_to_dict 2 (files_env []) (VStr ''plotstyle_configs''))
          (VStr ''plotstyle_configs'') None
          [(''title'', VStr ''local''), (''footer'', VStr ''x'')] [] new_world
       = dump_fields (files_env []) (dump_to_dict 2 (files_env []) (VStr ''plotstyle_configs''))
          (VStr ''plotstyle_configs'') None [(''footer'', VStr ''x'')]
          [(''title'', VStr ''local'')]
          (set_field_prop ''title'' (as_implicit (VStr ''local'')) new_world)
   \<and> fst (dump_fields (files_env []) (dump_to_dict 2 (files_env []) (VStr ''plotstyle_configs''))
          (VStr ''plotstyle_configs'') None
          [(''title'', VStr ''local''),
           (''broken'', VDict [(''value'', VInt 1), (''validator'', VStr ''nosuch'')]),
           (''footer'', VStr ''x'')] [] new_world)
       = fst (dump_fields (files_env []) (dump_to_dict 2 (files_env []) (VStr ''plotstyle_configs''))
          (VStr ''plotstyle_configs'') None
          [(''title'', VStr ''local''), (''footer'', VStr ''x'')] [] new_world)
   \<and> fst (snd (dump_fields (files_env [])
          (dump_to_dict 2 (files_env []) (VStr ''plotstyle_configs''))
          (VStr ''plotstyle_configs'') None
          [(''title'', VStr ''local''),
           (''broken'', VDict [(''value'', VInt 1), (''validator'', VStr ''nosuch'')]),
           (''footer'', VStr ''x'')] [] new_world))
       = fst (snd (dump_fields (files_env [])
          (dump_to_dict 2 (files_env []) (VStr ''plotstyle_configs''))
          (VStr ''plotstyle_configs'') None
          [(''title'', VStr ''local''), (''footer'', VStr ''x'')] [] new_world))
   \<and> fst (snd (dump_fields (files_env [])
          (dump_to_dict 2 (files_env []) (VStr ''plotstyle_configs''))
          (VStr ''plotstyle_configs'') None
          [(''title'', VStr ''local''), (''footer'', VStr ''x'')] [] new_world))
       = [(''title'', VStr ''local''), (''footer'', VStr ''x'')]
   \<and> register_affix (files_env []) (dump_to_dict 2 (files_env []) (VStr ''plotstyle_configs''))
          ''name''
          [(''value'', VStr ''Report''),
           (''suffix'', VDict [(''value'', VInt 2), (''validator'', VStr ''nosuch''),
                               (''source'', VStr ''literal'')])]
          [(''name'', VStr ''Report'')] [(''name'', VStr ''Report'')] ''suffix'' new_world
       = warn (IgnoreField ''name.suffix'' (ParseError UnkownValidator)) new_world
   \<and> fst (PlotStyle_init 3 (files_env []) (dict_args unknown_validator_doc ''en'' True) new_world)
       = Inr [(''title'', VStr ''local''), (''footer'', VStr ''x'')]
   \<and> warned (snd (PlotStyle_init 3 (files_env []) (dict_args unknown_validator_doc ''en'' True)
                     new_world))
       = [IgnoreField ''broken'' (ParseError UnkownValidator)]"
proof -
  let ?E = "files_env []"
  let ?cf = "VStr ''plotstyle_configs''"
  let ?D = "dump_to_dict 2 ?E ?cf"
  let ?raw = "VDict [(''value'', VInt 1), (''validator'', VStr ''nosuch'')]"
  let ?p = "[(''value'', VInt 1), (''validator'', VStr ''nosuch''), (''source'', VStr ''literal'')]"
  let ?inc = "VDict [(''value'', VStr ''missing.yaml''), (''validator'', VStr ''yaml'')]"
  let ?q = "[(''value'', VStr ''missing.yaml''), (''validator'', VStr ''yaml''),
             (''source'', VStr ''literal'')]"
  let ?bad = "VTagged EXPLICIT (VDict [(''validator'', VStr ''str'')])"
  have a1: "\<forall>kr \<in> set [(''broken'', ?raw), (''footer'', VStr ''x'')]. normalizable (snd kr)"
    by (simp add: normalizable_def)
  have b1: "normalize_prop ''broken'' ?raw new_world = (Inr ?p, new_world)"
    by code_simp
  have b2: "dict_get ?p ''validator'' \<noteq> Inr (VStr ''yaml'')"
    by (simp add: dict_get_def)
  have b3: "parse_prop ?E ?D ''broken'' (VDict ?p) [(''title'', VStr ''local'')]
              (reads None [(''title'', VStr ''local'')]) (set_field_prop ''broken'' ?p new_world)
            = (Inl (ParseError UnkownValidator), set_field_prop ''broken'' ?p new_world)"
    by code_simp
  have c1: "normalize_prop ''shared'' ?inc new_world = (Inr ?q, new_world)"
    by code_simp
  have c2: "dict_get ?q ''validator'' = Inr (VStr ''yaml'')"
    by (simp add: dict_get_def)
  have c3: "chain_include ?E ?D ?cf ''shared'' ?q [] (reads None [])
              (set_field_prop ''shared'' ?q new_world)
            = (Inl FileNotFoundError, [],
               file_stack_append (VStr ''missing.yaml'') (set_field_prop ''shared'' ?q new_world))"
    by code_simp
  have d1: "normalize_prop ''broken'' ?bad new_world = (Inl ValueError, new_world)"
    by code_simp
  from value_failures_isolated
    [where flds = "[(''broken'', ?raw), (''footer'', VStr ''x'')]" and E = ?E and dumper = ?D
       and cf = ?cf and rf = None and dt = "[(''title'', VStr ''local'')]" and w = new_world]
    a1
  have r1: "fst (dump_fields ?E ?D ?cf None [(''broken'', ?raw), (''footer'', VStr ''x'')]
               [(''title'', VStr ''local'')] new_world) = Inr ()"
    by blast
  from value_failures_isolated
    [where key = "''broken''" and raw = ?raw and w = new_world and p = ?p and ?w1.0 = new_world
       and E = ?E and dumper = ?D and cf = ?cf and rf = None and dt = "[(''title'', VStr ''local'')]"
       and e = "ParseError UnkownValidator" and ?w3.0 = "set_field_prop ''broken'' ?p new_world"
       and rest = "[(''footer'', VStr ''x'')]"]
    b1 b2 b3
  have r2: "dump_fields ?E ?D ?cf None ((''broken'', ?raw) # [(''footer'', VStr ''x'')])
               [(''title'', VStr ''local'')] new_world
            = dump_fields ?E ?D ?cf None [(''footer'', VStr ''x'')] [(''title'', VStr ''local'')]
                (warn (IgnoreField ''broken'' (ParseError UnkownValidator))
                   (set_field_prop ''broken'' ?p new_world))"
    by blast
  from value_failures_isolated
    [where key = "''shared''" and raw = ?inc and w = new_world and p = ?q and ?w1.0 = new_world
       and E = ?E and dumper = ?D and cf = ?cf and rf = None and dt = "[]"
       and e = FileNotFoundError and ?d3.0 = "[]"
       and ?w3.0 = "file_stack_append (VStr ''missing.yaml'') (set_field_prop ''shared'' ?q new_world)"
       and rest = "[(''title'', VStr ''local'')]"]
    c1 c2 c3
  have r3: "dump_fields ?E ?D ?cf None ((''shared'', ?inc) # [(''title'', VStr ''local'')]) [] new_world
            = dump_fields ?E ?D ?cf None [(''title'', VStr ''local'')] []
                (warn (IgnoreField ''shared'' FileNotFoundError)
                   (file_stack_append (VStr ''missing.yaml'')
                      (set_field_prop ''shared'' ?q new_world)))"
    by blast
  from value_failures_isolated
    [where key = "''broken''" and raw = ?bad and w = new_world and e = ValueError
       and ?w1.0 = new_world and E = ?E and dumper = ?D and cf = ?cf and rf = None
       and dt = "[(''title'', VStr ''local'')]" and rest = "[(''footer'', VStr ''x'')]"]
    d1
  have r4: "dump_fields ?E ?D ?cf None ((''broken'', ?bad) # [(''footer'', VStr ''x'')])
               [(''title'', VStr ''local'')] new_world
            = (Inl ValueError, [(''title'', VStr ''local'')], new_world)"
    by blast
  let ?pt = "as_implicit (VStr ''local'')"
  let ?wt = "set_field_prop ''title'' ?pt new_world"
  have s1: "normalize_prop ''title'' (VStr ''local'') new_world = (Inr ?pt, new_world)"
    by code_simp
  have s2: "dict_get ?pt ''validator'' \<noteq> Inr (VStr ''yaml'')"
    by (simp add: dict_get_def as_implicit_def)
  have s3: "parse_prop ?E ?D ''title'' (VDict ?pt) [] (reads None []) ?wt
            = (Inr (VStr ''local''), ?wt)"
    by code_simp
  have s4: "record_keep ''title'' ?pt
              (register_affixable ?E ?D ''title'' ?pt (dict_set ''title'' (VStr ''local'') [])
                 (reads None (dict_set ''title'' (VStr ''local'') [])) ?wt) = ?wt"
    by code_simp
  from value_failures_isolated
    [where key = "''title''" and raw = "VStr ''local''" and w = new_world and p = ?pt
       and ?w1.0 = new_world and E = ?E and dumper = ?D and cf = ?cf and rf = None and dt = "[]"
       and v = "VStr ''local''" and ?w3.0 = ?wt and rest = "[(''footer'', VStr ''x'')]"]
    s1 s2 s3
  have "dump_fields ?E ?D ?cf None ((''title'', VStr ''local'') # [(''footer'', VStr ''x'')]) []
               new_world
            = dump_fields ?E ?D ?cf None [(''footer'', VStr ''x'')]
                (dict_set ''title'' (VStr ''local'') [])
                (record_keep ''title'' ?pt
                  (register_affixable ?E ?D ''title'' ?pt (dict_set ''title'' (VStr ''local'') [])
                     (reads None (dict_set ''title'' (VStr ''local'') [])) ?wt))"
    by blast
  then have r5: "dump_fields ?E ?D ?cf None [(''title'', VStr ''local''), (''footer'', VStr ''x'')] []
               new_world
            = dump_fields ?E ?D ?cf None [(''footer'', VStr ''x'')] [(''title'', VStr ''local'')] ?wt"
    unfolding s4 by simp
  have o1: "dump_fields ?E ?D ?cf None [(''title'', VStr ''local'')] [] new_world
            = (Inr (), [(''title'', VStr ''local'')], ?wt)"
    by code_simp
  have o2: "normalize_prop ''broken'' ?raw ?wt = (Inr ?p, ?wt)"
    by code_simp
  have o3: "fst (parse_prop ?E ?D ''broken'' (VDict ?p) [(''title'', VStr ''local'')]
              (reads None [(''title'', VStr ''local'')]) (set_field_prop ''broken'' ?p ?wt))
            = Inl (ParseError UnkownValidator)"
    by code_simp
  from value_failures_isolated
    [where E = ?E and depth = 2 and cf = ?cf and rf = None and pre = "[(''title'', VStr ''local'')]"
       and dt = "[]" and w = new_world and ?d0.0 = "[(''title'', VStr ''local'')]" and ?w0.0 = ?wt
       and key = "''broken''" and raw = ?raw and p = ?p and ?w4.0 = ?wt
       and e = "ParseError UnkownValidator" and rest = "[(''footer'', VStr ''x'')]"]
    o1 o2 b2 o3
  have r6: "fst (dump_fields ?E ?D ?cf None
                  ([(''title'', VStr ''local'')] @ (''broken'', ?raw) # [(''footer'', VStr ''x'')])
                  [] new_world)
            = fst (dump_fields ?E ?D ?cf None
                  ([(''title'', VStr ''local'')] @ [(''footer'', VStr ''x'')]) [] new_world)
          \<and> fst (snd (dump_fields ?E ?D ?cf None
                  ([(''title'', VStr ''local'')] @ (''broken'', ?raw) # [(''footer'', VStr ''x'')])
                  [] new_world))
            = fst (snd (dump_fields ?E ?D ?cf None
                  ([(''title'', VStr ''local'')] @ [(''footer'', VStr ''x'')]) [] new_world))"
    by blast
  have r7: "fst (snd (dump_fields ?E ?D ?cf None
                  [(''title'', VStr ''local''), (''footer'', VStr ''x'')] [] new_world))
            = [(''title'', VStr ''local''), (''footer'', VStr ''x'')]"
    by code_simp
  let ?sfx = "VDict [(''value'', VInt 2), (''validator'', VStr ''nosuch''),
                     (''source'', VStr ''literal'')]"
  let ?pn = "[(''value'', VStr ''Report''), (''suffix'', ?sfx)]"
  have x1: "map_of ?pn ''suffix'' = Some ?sfx" by simp
  have x2: "?sfx \<noteq> VDict []" by simp
  have x3: "parse_prop ?E ?D ''name'' ?sfx [(''name'', VStr ''Report'')]
              (reads None [(''name'', VStr ''Report'')]) new_world
            = (Inl (ParseError UnkownValidator), new_world)"
    by code_simp
  have x4: "reads None [(''name'', VStr ''Report'')] = [(''name'', VStr ''Report'')]"
    by (simp add: reads_def)
  from value_failures_isolated
    [where p = ?pn and affix_type = "''suffix''" and a = ?sfx and E = ?E and dumper = ?D
       and key = "''name''" and dt = "[(''name'', VStr ''Report'')]" and rf = None
       and w = new_world and e = "ParseError UnkownValidator" and ?w3.0 = new_world]
    x1 x2 x3
  have "register_affix ?E ?D ''name'' ?pn [(''name'', VStr ''Report'')]
           (reads None [(''name'', VStr ''Report'')]) ''suffix'' new_world
        = warn (IgnoreField (''name'' @ ''.'' @ ''suffix'') (ParseError UnkownValidator)) new_world"
    by blast
  then have r8: "register_affix ?E ?D ''name'' ?pn [(''name'', VStr ''Report'')]
           [(''name'', VStr ''Report'')] ''suffix'' new_world
        = warn (IgnoreField ''name.suffix'' (ParseError UnkownValidator)) new_world"
    unfolding x4 by simp
  have r9: "fst (PlotStyle_init 3 ?E (dict_args unknown_validator_doc ''en'' True) new_world)
            = Inr [(''title'', VStr ''local''), (''footer'', VStr ''x'')]"
    by code_simp
  have r10: "warned (snd (PlotStyle_init 3 ?E (dict_args unknown_validator_doc ''en'' True)
                            new_world))
            = [IgnoreField ''broken'' (ParseError UnkownValidator)]"
    by code_simp
  from r6 have r6a: "fst (dump_fields ?E ?D ?cf None
                  [(''title'', VStr ''local''), (''broken'', ?raw), (''footer'', VStr ''x'')]
                  [] new_world)
            = fst (dump_fields ?E ?D ?cf None
                  [(''title'', VStr ''local''), (''footer'', VStr ''x'')] [] new_world)"
    and r6b: "fst (snd (dump_fields ?E ?D ?cf None
                  [(''title'', VStr ''local''), (''broken'', ?raw), (''footer'', VStr ''x'')]
                  [] new_world))
            = fst (snd (dump_fields ?E ?D ?cf None
                  [(''title'', VStr ''local''), (''footer'', VStr ''x'')] [] new_world))"
    by simp_all
  show ?thesis
    apply (intro conjI)
    apply (rule r1)
    apply (rule r2)
    apply (rule r3)
    apply (rule r4)
    apply (rule r5)
    apply (rule r6a)
    apply (rule r6b)
    apply (rule r7)
    apply (rule r8)
    apply (rule r9)
    apply (rule r10)
    done
qed


section \<open>Descriptors of fields that failed\<close>







section \<open>A later run repeats an earlier one\<close>

lemma dict_set_idem: "dict_set k v (dict_set k v' d) = dict_set k v d"
  by (induction d) auto

lemma dict_set_keys_mem: "k \<in> fst ` set (dict_set k v d)"
  using map_of_eq_None_iff [of "dict_set k v d" k] by (simp add: map_of_dict_set)

lemma dict_set_keys_keep: "k \<in> fst ` set d \<Longrightarrow> k \<in> fst ` set (dict_set k' v' d)"
  using map_of_eq_None_iff [of "dict_set k' v' d" k] map_of_eq_None_iff [of d k]
  by (auto simp: map_of_dict_set split: if_splits)

lemma dict_set_commute: "k \<noteq> k' \<Longrightarrow> k \<in> fst ` set d \<Longrightarrow>
  dict_set k' v' (dict_set k v d) = dict_set k v (dict_set k' v' d)"
proof (induction d)
  case Nil
  then show ?case by simp
next
  case (Cons a d)
  obtain x y where a: "a = (x, y)" by (cases a)
  show ?case
  proof (cases "x = k")
    case True
    with Cons.prems a show ?thesis by simp
  next
    case False
    with Cons.prems a have "k \<in> fst ` set d" by auto
    from Cons.IH [OF Cons.prems(1) this] False a show ?thesis by simp
  qed
qed

lemma foldl_set_present:
  "k \<in> fst ` set Y \<Longrightarrow> k \<notin> fst ` set A \<Longrightarrow>
   foldl (\<lambda>acc kv. dict_set (fst kv) (snd kv) acc) (dict_set k v Y) A
     = dict_set k v (foldl (\<lambda>acc kv. dict_set (fst kv) (snd kv) acc) Y A)"
proof (induction A arbitrary: Y)
  case Nil
  show ?case by simp
next
  case (Cons a A)
  obtain k' v' where a: "a = (k', v')" by (cases a)
  from Cons.prems a have ne: "k \<noteq> k'" and nA: "k \<notin> fst ` set A" by auto
  have in': "k \<in> fst ` set (dict_set k' v' Y)"
    using Cons.prems(1) by (rule dict_set_keys_keep)
  have "foldl (\<lambda>acc kv. dict_set (fst kv) (snd kv) acc) (dict_set k v Y) (a # A)
        = foldl (\<lambda>acc kv. dict_set (fst kv) (snd kv) acc) (dict_set k' v' (dict_set k v Y)) A"
    by (simp add: a)
  also have "dict_set k' v' (dict_set k v Y) = dict_set k v (dict_set k' v' Y)"
    using dict_set_commute [OF ne Cons.prems(1)] .
  also have "foldl (\<lambda>acc kv. dict_set (fst kv) (snd kv) acc) (dict_set k v (dict_set k' v' Y)) A
        = dict_set k v (foldl (\<lambda>acc kv. dict_set (fst kv) (snd kv) acc) (dict_set k' v' Y) A)"
    by (rule Cons.IH [OF in' nA])
  finally show ?case by (simp add: a)
qed

lemma dict_update_dict_set:
  "distinct (map fst A) \<Longrightarrow> dict_update X (dict_set k v A) = dict_set k v (dict_update X A)"
proof (induction A arbitrary: X)
  case Nil
  show ?case by (simp add: dict_update_def)
next
  case (Cons a A)
  obtain k' v' where a: "a = (k', v')" by (cases a)
  show ?case
  proof (cases "k = k'")
    case True
    from Cons.prems a True have nA: "k \<notin> fst ` set A" by auto
    have "dict_update X (dict_set k v (a # A))
            = foldl (\<lambda>acc kv. dict_set (fst kv) (snd kv) acc) (dict_set k v X) A"
      by (simp add: a True dict_update_def)
    also have "dict_set k v X = dict_set k v (dict_set k v' X)"
      by (simp add: dict_set_idem)
    also have "foldl (\<lambda>acc kv. dict_set (fst kv) (snd kv) acc) (dict_set k v (dict_set k v' X)) A
        = dict_set k v (foldl (\<lambda>acc kv. dict_set (fst kv) (snd kv) acc) (dict_set k v' X) A)"
      by (rule foldl_set_present [OF dict_set_keys_mem nA])
    finally show ?thesis by (simp add: a True dict_update_def)
  next
    case False
    from Cons.prems have d: "distinct (map fst A)" by simp
    from Cons.IH [OF d, of "dict_set k' v' X"] False show ?thesis
      by (simp add: a dict_update_def)
  qed
qed

lemma foldl_set_same_keys:
  "distinct (map fst (P @ A)) \<Longrightarrow> map fst B = map fst A \<Longrightarrow>
   foldl (\<lambda>acc kv. dict_set (fst kv) (snd kv) acc) (P @ B) A = P @ A"
proof (induction A arbitrary: P B)
  case Nil
  then show ?case by simp
next
  case (Cons a A)
  obtain k v where a: "a = (k, v)" by (cases a)
  from Cons.prems(2) a obtain v' B' where B: "B = (k, v') # B'" "map fst B' = map fst A"
    by (cases B) auto
  from Cons.prems(1) a have nk: "k \<notin> fst ` set P" by auto
  have step: "dict_set k v (P @ (k, v') # B') = (P @ [(k, v)]) @ B'"
    using nk by (induction P) auto
  from Cons.prems(1) a have d: "distinct (map fst ((P @ [(k, v)]) @ A))" by simp
  from Cons.IH [OF d B(2)] show ?case
    by (simp add: a B step del: append_assoc)
qed

lemma dict_update_same_keys:
  "distinct (map fst A) \<Longrightarrow> map fst B = map fst A \<Longrightarrow> dict_update B A = A"
  using foldl_set_same_keys [of "[]" A B] by (simp add: dict_update_def)

lemma simM_D:
  assumes "simM X F S m" "later_run X F S w w'" "m w = (r, v)"
  shows "\<exists>v'. m w' = (r, v') \<and> later_run X F S v v' \<and> grows w v"
proof -
  from assms(1,2) have "fst (m w) = fst (m w')" "later_run X F S (snd (m w)) (snd (m w'))"
    "grows w (snd (m w))"
    by (simp_all add: simM_def)
  with assms(3) show ?thesis by (cases "m w'") auto
qed

lemma simT_D:
  assumes "simT X F S f" "later_run X F S w w'" "f w = (r, d, v)"
  shows "\<exists>v'. f w' = (r, d, v') \<and> later_run X F S v v' \<and> grows w v"
proof -
  from assms(1,2) have "fst (f w) = fst (f w')" "fst (snd (f w)) = fst (snd (f w'))"
    "later_run X F S (snd (snd (f w))) (snd (snd (f w')))" "grows w (snd (snd (f w)))"
    by (simp_all add: simT_def)
  with assms(3) show ?thesis by (cases "f w'") auto
qed

lemma simW_D:
  assumes "simW X F S f" "later_run X F S w w'"
  shows "later_run X F S (f w) (f w')" "grows w (f w)"
  using assms by (simp_all add: simW_def)

lemma simM_I:
  assumes "\<And>w w' r v. later_run X F S w w' \<Longrightarrow> m w = (r, v) \<Longrightarrow>
             \<exists>v'. m w' = (r, v') \<and> later_run X F S v v' \<and> grows w v"
  shows "simM X F S m"
  unfolding simM_def
proof (intro allI impI)
  fix w w' assume R: "later_run X F S w w'"
  obtain r v where mw: "m w = (r, v)" by (cases "m w")
  from assms [OF R mw] obtain v' where "m w' = (r, v')" "later_run X F S v v'" "grows w v"
    by blast
  with mw show "fst (m w) = fst (m w') \<and> later_run X F S (snd (m w)) (snd (m w')) \<and> grows w (snd (m w))"
    by simp
qed

lemma simT_I:
  assumes "\<And>w w' r d v. later_run X F S w w' \<Longrightarrow> f w = (r, d, v) \<Longrightarrow>
             \<exists>v'. f w' = (r, d, v') \<and> later_run X F S v v' \<and> grows w v"
  shows "simT X F S f"
  unfolding simT_def
proof (intro allI impI)
  fix w w' assume R: "later_run X F S w w'"
  obtain r d v where fw: "f w = (r, d, v)" by (cases "f w")
  from assms [OF R fw] obtain v' where "f w' = (r, d, v')" "later_run X F S v v'" "grows w v"
    by blast
  with fw show "fst (f w) = fst (f w') \<and> fst (snd (f w)) = fst (snd (f w'))
        \<and> later_run X F S (snd (snd (f w))) (snd (snd (f w'))) \<and> grows w (snd (snd (f w)))"
    by simp
qed

lemma simM_ret: "simM X F S (retM x)"
  by (simp add: simM_def retM_def grows_refl)

lemma simM_raise: "simM X F S (raiseM e)"
  by (simp add: simM_def raiseM_def grows_refl)

lemma simM_lift: "simM X F S (liftM r)"
  by (simp add: simM_def liftM_def grows_refl)

lemma simM_bind:
  assumes "simM X F S m" "\<And>x. simM X F S (f x)"
  shows "simM X F S (bindM m f)"
proof (rule simM_I)
  fix w w' r v
  assume R: "later_run X F S w w'" and b: "bindM m f w = (r, v)"
  obtain r1 v1 where mw: "m w = (r1, v1)" by (cases "m w")
  from simM_D [OF assms(1) R mw] obtain v1' where
    mw': "m w' = (r1, v1')" and R1: "later_run X F S v1 v1'" and g1: "grows w v1" by blast
  show "\<exists>v'. bindM m f w' = (r, v') \<and> later_run X F S v v' \<and> grows w v"
  proof (cases r1)
    case (Inl e)
    with b mw mw' R1 g1 show ?thesis by (auto simp: bindM_def)
  next
    case (Inr x)
    with b mw have fx: "f x v1 = (r, v)" by (simp add: bindM_def)
    from simM_D [OF assms(2) R1 fx] obtain v' where
      "f x v1' = (r, v')" "later_run X F S v v'" "grows v1 v" by blast
    with Inr mw' g1 show ?thesis by (auto simp: bindM_def intro: grows_trans)
  qed
qed

lemma simW_warn: "simW X F S (warn msg)"
  by (simp add: simW_def later_run_def warn_def grows_def)

lemma simW_record_keep: "simW X F S (record_keep key p)"
  by (auto simp: simW_def later_run_def record_keep_def grows_def
      split: option.splits pyval.splits)

lemma simW_set_field_prop: "simW X F S (set_field_prop key p)"
  by (simp add: simW_def later_run_def set_field_prop_def grows_def dict_update_dict_set
      distinct_dict_set)

lemma simW_set_affix: "simW X F S (set_affix k v)"
  by (simp add: simW_def later_run_def set_affix_def grows_def dict_update_dict_set
      distinct_dict_set)

lemma simW_file_stack_append: "simW X F S (file_stack_append p)"
  by (simp add: simW_def later_run_def file_stack_append_def grows_def)

lemma simM_then:
  assumes "simM X F S m" "\<And>r. simM X F S (g r)"
  shows "simM X F S (\<lambda>w. g (fst (m w)) (snd (m w)))"
proof (rule simM_I)
  fix w w' r v
  assume R: "later_run X F S w w'" and b: "g (fst (m w)) (snd (m w)) = (r, v)"
  obtain r1 v1 where mw: "m w = (r1, v1)" by (cases "m w")
  from simM_D [OF assms(1) R mw] obtain v1' where
    mw': "m w' = (r1, v1')" and R1: "later_run X F S v1 v1'" and g1: "grows w v1" by blast
  from b mw have "g r1 v1 = (r, v)" by simp
  from simM_D [OF assms(2) R1 this] obtain v' where
    "g r1 v1' = (r, v')" "later_run X F S v v'" "grows v1 v" by blast
  with mw' g1 show "\<exists>v'. g (fst (m w')) (snd (m w')) = (r, v') \<and> later_run X F S v v' \<and> grows w v"
    by (auto intro: grows_trans)
qed

lemma simM_DictValidator_validate_items:
  assumes fp: "\<And>v. simM X F S (fp v)"
  shows "simM X F S (DictValidator_validate_items fp items)"
proof (induction items)
  case Nil
  show ?case by (simp add: simM_ret)
next
  case (Cons a items)
  obtain key sub where a: "a = (key, sub)" by (cases a)
  let ?g = "\<lambda>r. case r of Inl e \<Rightarrow> retM False | Inr (x::pydict) \<Rightarrow> DictValidator_validate_items fp items"
  have eq: "DictValidator_validate_items fp (a # items)
      = (\<lambda>w. ?g (fst (fp (VDict [(key, sub)]) w)) (snd (fp (VDict [(key, sub)]) w)))"
    by (auto simp: a fun_eq_iff retM_def split: prod.splits sum.splits)
  have "\<And>r. simM X F S (?g r)"
    using Cons.IH by (simp add: simM_ret split: sum.splits)
  from simM_then [OF fp this] show ?case unfolding eq .
qed

lemma simM_DictValidator_validate:
  assumes fp: "\<And>v. simM X F S (fp v)"
  shows "simM X F S (DictValidator_validate fp v)"
  using simM_DictValidator_validate_items [OF fp]
  by (simp add: DictValidator_validate_def simM_ret split: pyval.splits)

lemma simM_DictValidator_parse_items:
  assumes fp: "\<And>v. simM X F S (fp v)"
  shows "simM X F S (DictValidator_parse_items fp items parsed)"
proof (induction items arbitrary: parsed)
  case Nil
  show ?case by (simp add: simM_ret)
next
  case (Cons a items)
  obtain key sub where a: "a = (key, sub)" by (cases a)
  show ?case
    unfolding a DictValidator_parse_items.simps
    by (intro simM_bind fp simM_lift Cons.IH)
qed

lemma simM_DictValidator_parse:
  assumes fp: "\<And>v. simM X F S (fp v)"
  shows "simM X F S (DictValidator_parse fp v)"
  unfolding DictValidator_parse_def
proof (rule simM_bind [OF simM_DictValidator_validate [OF fp]])
  fix ok
  show "simM X F S (if \<not> ok then raiseM ValueError
       else case v of
         VDict d \<Rightarrow> bindM (DictValidator_parse_items fp d []) (\<lambda>parsed. retM (VDict parsed))
       | _ \<Rightarrow> raiseM ValueError)"
    by (auto simp: simM_raise split: pyval.splits
        intro!: simM_bind simM_DictValidator_parse_items [OF fp] simM_ret)
qed

lemma simM_Gridoptions_validate_entries:
  assumes fp: "\<And>v. simM X F S (fp v)"
  shows "simM X F S (Gridoptions_validate_entries fp items)"
proof (induction items)
  case Nil
  show ?case by (simp add: simM_ret)
next
  case (Cons a items)
  obtain key sub where a: "a = (key, sub)" by (cases a)
  let ?g = "\<lambda>r. case r of Inl e \<Rightarrow> retM False | Inr (x::pydict) \<Rightarrow> Gridoptions_validate_entries fp items"
  show ?case
  proof (cases "is_dict sub")
    case False
    then show ?thesis by (simp add: a simM_ret)
  next
    case True
    have eq: "Gridoptions_validate_entries fp (a # items)
      = (\<lambda>w. ?g (fst (fp (VDict [(key, sub)]) w)) (snd (fp (VDict [(key, sub)]) w)))"
      using True by (auto simp: a fun_eq_iff retM_def split: prod.splits sum.splits)
    have "\<And>r. simM X F S (?g r)"
      using Cons.IH by (simp add: simM_ret split: sum.splits)
    from simM_then [OF fp this] show ?thesis unfolding eq .
  qed
qed

lemma simM_Gridoptions_validate_items:
  assumes fp: "\<And>v. simM X F S (fp v)"
  shows "simM X F S (Gridoptions_validate_items fp items)"
proof (induction items)
  case Nil
  show ?case by (simp add: simM_ret)
next
  case (Cons a items)
  show ?case
  proof (cases a)
    case (VDict d)
    have "\<And>ok. simM X F S (if \<not> ok then retM False else Gridoptions_validate_items fp items)"
      using Cons.IH by (simp add: simM_ret)
    then show ?thesis
      unfolding VDict Gridoptions_validate_items.simps pyval.case
      by (intro simM_bind simM_Gridoptions_validate_entries [OF fp])
  qed (simp_all add: simM_ret)
qed

lemma simM_GridoptionsValidator_validate:
  assumes fp: "\<And>v. simM X F S (fp v)"
  shows "simM X F S (GridoptionsValidator_validate fp v)"
  using simM_Gridoptions_validate_items [OF fp]
  by (simp add: GridoptionsValidator_validate_def simM_ret split: pyval.splits)

lemma simM_Gridoptions_parse_entries:
  assumes fp: "\<And>v. simM X F S (fp v)"
  shows "simM X F S (Gridoptions_parse_entries fp items parsed)"
proof (induction items arbitrary: parsed)
  case Nil
  show ?case by (simp add: simM_ret)
next
  case (Cons a items)
  obtain key sub where a: "a = (key, sub)" by (cases a)
  show ?case
    unfolding a Gridoptions_parse_entries.simps
    by (intro simM_bind fp simM_lift Cons.IH)
qed

lemma simM_Gridoptions_parse_items:
  assumes fp: "\<And>v. simM X F S (fp v)"
  shows "simM X F S (Gridoptions_parse_items fp items parsed)"
proof (induction items arbitrary: parsed)
  case Nil
  show ?case by (simp add: simM_ret)
next
  case (Cons a items)
  show ?case
  proof (cases a)
    case (VDict d)
    show ?thesis
      unfolding VDict Gridoptions_parse_items.simps pyval.case
      by (intro simM_bind simM_Gridoptions_parse_entries [OF fp] Cons.IH)
  qed (simp_all add: simM_raise)
qed

lemma simM_GridoptionsValidator_parse:
  assumes fp: "\<And>v. simM X F S (fp v)"
  shows "simM X F S (GridoptionsValidator_parse fp v)"
  unfolding GridoptionsValidator_parse_def
proof (rule simM_bind [OF simM_GridoptionsValidator_validate [OF fp]])
  fix ok
  show "simM X F S (if \<not> ok then raiseM ValueError
       else case v of
         VList xs \<Rightarrow> bindM (Gridoptions_parse_items fp xs []) (\<lambda>parsed_list. retM (VList parsed_list))
       | _ \<Rightarrow> raiseM ValueError)"
    by (auto simp: simM_raise split: pyval.splits
        intro!: simM_bind simM_Gridoptions_parse_items [OF fp] simM_ret)
qed

lemma simM_PlotoptionsValidator_parse:
  assumes fp: "\<And>v. simM X F S (fp v)"
  shows "simM X F S (PlotoptionsValidator_parse fp v)"
  unfolding PlotoptionsValidator_parse_def
  by (intro simM_bind fp simM_ret)

lemma simM_VALIDATORS:
  assumes fp: "\<And>v. simM X F S (fp v)"
    and p: "map_of (VALIDATORS E) s = Some parse"
  shows "simM X F S (parse fp v)"
proof (cases "s \<in> {''dict'', ''gridoptions'', ''plotoptions''}")
  case True
  with p have "parse = DictValidator_parse \<or> parse = GridoptionsValidator_parse
      \<or> parse = PlotoptionsValidator_parse"
    by (auto simp: VALIDATORS_def)
  then show ?thesis
    using simM_DictValidator_parse [OF fp] simM_GridoptionsValidator_parse [OF fp]
      simM_PlotoptionsValidator_parse [OF fp] by auto
next
  case False
  from VALIDATORS_pure [OF p False] obtain f where "parse = pure_parse f" by blast
  then show ?thesis by (simp add: pure_parse_def simM_lift)
qed

lemma simM_bind_lift:
  assumes "\<And>x. r = Inr x \<Longrightarrow> simM X F S (f x)"
  shows "simM X F S (bindM (liftM r) f)"
proof (cases r)
  case (Inl e)
  then have "bindM (liftM r) f = raiseM e"
    by (simp add: bindM_def liftM_def raiseM_def fun_eq_iff)
  then show ?thesis by (simp add: simM_raise)
next
  case (Inr x)
  then have "bindM (liftM r) f = f x"
    by (simp add: bindM_def liftM_def fun_eq_iff)
  with assms [OF Inr] show ?thesis by simp
qed

lemma simM_nested_field_parser:
  assumes D: "simD X F S D"
  shows "simM X F S (nested_field_parser D dt h)"
proof (rule simM_I)
  fix w w' r v
  assume R: "later_run X F S w w'" and b: "nested_field_parser D dt h w = (r, v)"
  from D have T: "simT X F S (D h [] (Some dt))" by (simp add: simD_def)
  obtain r1 d1 v1 where dw: "D h [] (Some dt) w = (r1, d1, v1)" by (cases "D h [] (Some dt) w")
  from simT_D [OF T R dw] obtain v1' where
    "D h [] (Some dt) w' = (r1, d1, v1')" "later_run X F S v1 v1'" "grows w v1" by blast
  with b dw show "\<exists>v'. nested_field_parser D dt h w' = (r, v') \<and> later_run X F S v v' \<and> grows w v"
    by (cases r1) (auto simp: nested_field_parser_def)
qed

lemma simM_parse_prop_try:
  assumes D: "simD X F S D"
  shows "simM X F S (parse_prop_try E D key p name dt rf)"
  unfolding parse_prop_try_def
proof (rule simM_bind_lift)
  fix validator :: "validator_parse option"
  assume g: "VALIDATORS_get E name = Inr validator"
  show "simM X F S (case validator of
         None \<Rightarrow> raiseM UnkownValidator
       | Some parse \<Rightarrow>
           bindM (liftM (fetch_value key p dt rf)) (\<lambda>kv.
             parse (nested_field_parser D dt) (snd kv)))"
  proof (cases validator)
    case None
    then show ?thesis by (simp add: simM_raise)
  next
    case (Some parse)
    with g obtain s where s: "map_of (VALIDATORS E) s = Some parse"
      by (auto simp: VALIDATORS_get_def split: if_splits pyval.splits)
    have "\<And>v. simM X F S (parse (nested_field_parser D dt) v)"
      by (rule simM_VALIDATORS [OF simM_nested_field_parser [OF D] s])
    then show ?thesis
      unfolding Some option.case by (intro simM_bind simM_lift)
  qed
qed

lemma simM_parse_prop:
  assumes D: "simD X F S D"
  shows "simM X F S (parse_prop E D key pr dt rf)"
proof (cases "py_getitem pr ''validator''")
  case (Inl e)
  then show ?thesis by (simp add: parse_prop_def simM_raise)
next
  case (Inr name)
  show ?thesis
  proof (cases pr)
    case (VDict d)
    let ?g = "\<lambda>r. case r of Inl e \<Rightarrow> raiseM (ParseError e) | Inr (v::pyval) \<Rightarrow> retM v"
    have eq: "parse_prop E D key pr dt rf
        = (\<lambda>w. ?g (fst (parse_prop_try E D key d name dt rf w))
                  (snd (parse_prop_try E D key d name dt rf w)))"
      using Inr VDict
      by (auto simp: parse_prop_def fun_eq_iff raiseM_def retM_def split: prod.splits sum.splits)
    have "\<And>r. simM X F S (?g r)"
      by (simp add: simM_ret simM_raise split: sum.splits)
    from simM_then [OF simM_parse_prop_try [OF D] this] show ?thesis unfolding eq .
  qed (use Inr in \<open>simp_all add: parse_prop_def simM_raise\<close>)
qed

lemma simW_I:
  assumes "\<And>w w'. later_run X F S w w' \<Longrightarrow> later_run X F S (f w) (f w') \<and> grows w (f w)"
  shows "simW X F S f"
  using assms by (simp add: simW_def)

lemma simW_comp:
  assumes "simW X F S f" "simW X F S g"
  shows "simW X F S (\<lambda>w. g (f w))"
proof (rule simW_I)
  fix w w' assume R: "later_run X F S w w'"
  from simW_D [OF assms(1) R] have 1: "later_run X F S (f w) (f w')" "grows w (f w)" .
  from simW_D [OF assms(2) 1(1)] 1(2)
  show "later_run X F S (g (f w)) (g (f w')) \<and> grows w (g (f w))"
    by (auto intro: grows_trans)
qed

lemma simW_after_M:
  assumes "simM X F S m" "\<And>r. simW X F S (g r)"
  shows "simW X F S (\<lambda>w. g (fst (m w)) (snd (m w)))"
proof (rule simW_I)
  fix w w' assume R: "later_run X F S w w'"
  obtain r1 v1 where mw: "m w = (r1, v1)" by (cases "m w")
  from simM_D [OF assms(1) R mw] obtain v1' where
    mw': "m w' = (r1, v1')" and R1: "later_run X F S v1 v1'" and g1: "grows w v1" by blast
  from simW_D [OF assms(2) R1, of r1] mw mw' g1
  show "later_run X F S (g (fst (m w)) (snd (m w))) (g (fst (m w')) (snd (m w')))
        \<and> grows w (g (fst (m w)) (snd (m w)))"
    by (auto intro: grows_trans)
qed

lemma simW_id: "simW X F S (\<lambda>w. w)"
  by (simp add: simW_def grows_refl)

lemma simW_register_affix:
  assumes D: "simD X F S D"
  shows "simW X F S (register_affix E D key p dt rf affix_type)"
proof (cases "map_of p affix_type")
  case None
  then have "register_affix E D key p dt rf affix_type = (\<lambda>w. w)"
    by (simp add: register_affix_def fun_eq_iff)
  then show ?thesis by (simp add: simW_id)
next
  case (Some a)
  show ?thesis
  proof (cases "a = VDict []")
    case True
    with Some have "register_affix E D key p dt rf affix_type = (\<lambda>w. w)"
      by (simp add: register_affix_def fun_eq_iff)
    then show ?thesis by (simp add: simW_id)
  next
    case False
    let ?g = "\<lambda>r. case r of Inl e \<Rightarrow> warn (IgnoreField (key @ ''.'' @ affix_type) e)
                          | Inr v \<Rightarrow> set_affix (format_key key affix_type) v"
    have eq: "register_affix E D key p dt rf affix_type
        = (\<lambda>w. ?g (fst (parse_prop E D key a dt rf w)) (snd (parse_prop E D key a dt rf w)))"
      using Some False
      by (auto simp: register_affix_def fun_eq_iff split: prod.splits sum.splits)
    have "\<And>r. simW X F S (?g r)"
      by (simp add: simW_warn simW_set_affix split: sum.splits)
    from simW_after_M [OF simM_parse_prop [OF D] this] show ?thesis unfolding eq .
  qed
qed

lemma simW_register_affixable:
  assumes D: "simD X F S D"
  shows "simW X F S (register_affixable E D key p dt rf)"
proof -
  have "register_affixable E D key p dt rf
      = (\<lambda>w. register_affix E D key p dt rf ''suffix'' (register_affix E D key p dt rf ''prefix'' w))"
    by (simp add: register_affixable_def fun_eq_iff)
  then show ?thesis
    using simW_comp [OF simW_register_affix [OF D] simW_register_affix [OF D]] by simp
qed

lemma simT_ret: "simT X F S (\<lambda>w. (r, d, w))"
  by (simp add: simT_def grows_refl)

lemma later_run_pop:
  assumes R: "later_run X F S v v'" and ne: "file_stack (ctx v) \<noteq> []"
  shows "\<exists>u u'. file_stack_pop v = Inr u \<and> file_stack_pop v' = Inr u' \<and> later_run X F S u u'
           \<and> file_stack (ctx u) = butlast (file_stack (ctx v))"
  using assms by (auto simp: later_run_def file_stack_pop_def butlast_append)

lemma simT_include_paths:
  assumes D: "simD X F S D"
  shows "simT X F S (include_paths E D cf paths dt)"
proof (induction paths arbitrary: dt)
  case Nil
  show ?case by (simp add: simT_def grows_refl)
next
  case (Cons path rest)
  show ?case
  proof (rule simT_I)
    fix w w' r d v
    assume R: "later_run X F S w w'" and b: "include_paths E D cf (path # rest) dt w = (r, d, v)"
    let ?w1 = "file_stack_append path w" and ?w1' = "file_stack_append path w'"
    from simW_D [OF simW_file_stack_append R]
    have R1: "later_run X F S ?w1 ?w1'" and g1: "grows w ?w1" by blast+
    let ?load = "bindE (resolve_yaml_path E path cf) (\<lambda>resolved.
           bindE (YamlValidator_parse E (VStr resolved)) (\<lambda>checked. load_yaml E checked))"
    show "\<exists>v'. include_paths E D cf (path # rest) dt w' = (r, d, v')
            \<and> later_run X F S v v' \<and> grows w v"
    proof (cases ?load)
      case (Inl e)
      with b R1 g1 show ?thesis by (auto simp: Let_def)
    next
      case (Inr included)
      from D have T: "simT X F S (D (VDict included) dt None)" by (simp add: simD_def)
      obtain r2 d2 w2 where dw: "D (VDict included) dt None ?w1 = (r2, d2, w2)"
        by (cases "D (VDict included) dt None ?w1")
      from simT_D [OF T R1 dw] obtain w2' where
        dw': "D (VDict included) dt None ?w1' = (r2, d2, w2')"
        and R2: "later_run X F S w2 w2'" and g2: "grows ?w1 w2" by blast
      from g1 g2 have gw2: "grows w w2" by (rule grows_trans)
      show ?thesis
      proof (cases r2)
        case (Inl e)
        with b Inr dw dw' R2 gw2 show ?thesis by (auto simp: Let_def)
      next
        case u: (Inr u)
        from g2 obtain ext where ext: "file_stack (ctx w2) = (file_stack (ctx w) @ [path]) @ ext"
          by (auto simp: grows_def file_stack_append_def)
        then have ne: "file_stack (ctx w2) \<noteq> []" by simp
        from later_run_pop [OF R2 ne] obtain w3 w3' where
          p: "file_stack_pop w2 = Inr w3" and p': "file_stack_pop w2' = Inr w3'"
          and R3: "later_run X F S w3 w3'"
          and s3: "file_stack (ctx w3) = butlast (file_stack (ctx w2))" by blast
        from s3 ext have g3: "grows w w3"
          by (cases ext rule: rev_cases) (auto simp: grows_def butlast_append)
        from b Inr dw u p have rec: "include_paths E D cf rest d2 w3 = (r, d, v)"
          by (simp add: Let_def)
        from simT_D [OF Cons.IH R3 rec] obtain v' where
          "include_paths E D cf rest d2 w3' = (r, d, v')" "later_run X F S v v'" "grows w3 v"
          by blast
        with Inr dw' u p' g3 show ?thesis
          by (auto simp: Let_def intro: grows_trans)
      qed
    qed
  qed
qed

lemma simT_chain_include:
  assumes D: "simD X F S D"
  shows "simT X F S (chain_include E D cf key p dt rf)"
proof (cases "fetch_value key p dt rf")
  case (Inl e)
  then have "chain_include E D cf key p dt rf = (\<lambda>w. (Inl e, dt, w))"
    by (simp add: chain_include_def fun_eq_iff)
  then show ?thesis by (simp add: simT_ret)
next
  case (Inr kv)
  then have "chain_include E D cf key p dt rf
      = include_paths E D cf (case snd kv of VList paths \<Rightarrow> paths | v \<Rightarrow> [v]) dt"
    by (simp add: chain_include_def fun_eq_iff)
  then show ?thesis by (simp add: simT_include_paths [OF D])
qed

lemma simM_maybe_warn: "simM X F S (\<lambda>w. (Inr x, if c then warn msg w else w))"
  by (simp add: simM_def later_run_def warn_def grows_def)

lemma simM_normalize_prop: "simM X F S (normalize_prop key raw)"
proof (cases raw)
  case (VDict d)
  then show ?thesis
    by (simp add: normalize_prop_def simM_ret simM_maybe_warn)
next
  case (VTagged intent v)
  then show ?thesis
    by (simp add: normalize_prop_def simM_ret simM_raise split: FieldIntent.splits pyval.splits)
qed (simp_all add: normalize_prop_def simM_ret)

lemma simT_dump_field:
  assumes D: "simD X F S D"
  shows "simT X F S (dump_field E D cf rf key raw dt)"
proof (rule simT_I)
  fix w w' r d v
  assume R: "later_run X F S w w'" and b: "dump_field E D cf rf key raw dt w = (r, d, v)"
  have N: "simM X F S (normalize_prop key raw)" by (rule simM_normalize_prop)
  obtain r1 w1 where n: "normalize_prop key raw w = (r1, w1)" by (cases "normalize_prop key raw w")
  from simM_D [OF N R n] obtain w1' where
    n': "normalize_prop key raw w' = (r1, w1')" and R1: "later_run X F S w1 w1'"
    and g1: "grows w w1" by blast
  show "\<exists>v'. dump_field E D cf rf key raw dt w' = (r, d, v') \<and> later_run X F S v v' \<and> grows w v"
  proof (cases r1)
    case (Inl e)
    with b n n' R1 g1 show ?thesis by (auto simp: dump_field_def)
  next
    case (Inr p)
    let ?w2 = "set_field_prop key p w1" and ?w2' = "set_field_prop key p w1'"
    from simW_D [OF simW_set_field_prop R1]
    have R2: "later_run X F S ?w2 ?w2'" and g2: "grows w1 ?w2" by blast+
    from g1 g2 have gw2: "grows w ?w2" by (rule grows_trans)
    show ?thesis
    proof (cases "dict_get p ''validator'' = Inr (VStr ''yaml'')")
      case True
      obtain r3 d3 w3 where c: "chain_include E D cf key p dt (reads rf dt) ?w2 = (r3, d3, w3)"
        by (cases "chain_include E D cf key p dt (reads rf dt) ?w2")
      from simT_D [OF simT_chain_include [OF D] R2 c] obtain w3' where
        c': "chain_include E D cf key p dt (reads rf dt) ?w2' = (r3, d3, w3')"
        and R3: "later_run X F S w3 w3'" and g3: "grows ?w2 w3" by blast
      from gw2 g3 have gw3: "grows w w3" by (rule grows_trans)
      show ?thesis
      proof (cases r3)
        case (Inl e)
        from simW_D [OF simW_warn R3, of "IgnoreField key e"] gw3
        have "later_run X F S (warn (IgnoreField key e) w3) (warn (IgnoreField key e) w3')"
          "grows w (warn (IgnoreField key e) w3)"
          by (auto intro: grows_trans)
        with b n n' Inr True c c' Inl show ?thesis
          by (auto simp: dump_field_def Let_def)
      next
        case u: (Inr u)
        from simW_D [OF simW_record_keep R3, of key p] gw3
        have "later_run X F S (record_keep key p w3) (record_keep key p w3')"
          "grows w (record_keep key p w3)"
          by (auto intro: grows_trans)
        with b n n' Inr True c c' u show ?thesis
          by (auto simp: dump_field_def Let_def)
      qed
    next
      case False
      obtain r3 w3 where c: "parse_prop E D key (VDict p) dt (reads rf dt) ?w2 = (r3, w3)"
        by (cases "parse_prop E D key (VDict p) dt (reads rf dt) ?w2")
      from simM_D [OF simM_parse_prop [OF D] R2 c] obtain w3' where
        c': "parse_prop E D key (VDict p) dt (reads rf dt) ?w2' = (r3, w3')"
        and R3: "later_run X F S w3 w3'" and g3: "grows ?w2 w3" by blast
      from gw2 g3 have gw3: "grows w w3" by (rule grows_trans)
      show ?thesis
      proof (cases r3)
        case (Inl e)
        from simW_D [OF simW_warn R3, of "IgnoreField key e"] gw3
        have "later_run X F S (warn (IgnoreField key e) w3) (warn (IgnoreField key e) w3')"
          "grows w (warn (IgnoreField key e) w3)"
          by (auto intro: grows_trans)
        with b n n' Inr False c c' Inl show ?thesis
          by (auto simp: dump_field_def Let_def)
      next
        case pv: (Inr parsed_value)
        let ?d3 = "dict_set key parsed_value dt"
        let ?reg = "register_affixable E D key p ?d3 (reads rf ?d3)"
        from simW_D [OF simW_register_affixable [OF D] R3, of E key p ?d3 "reads rf ?d3"]
        have R4: "later_run X F S (?reg w3) (?reg w3')" and g4: "grows w3 (?reg w3)" by blast+
        from simW_D [OF simW_record_keep R4, of key p] gw3 g4
        have "later_run X F S (record_keep key p (?reg w3)) (record_keep key p (?reg w3'))"
          "grows w (record_keep key p (?reg w3))"
          by (auto intro: grows_trans)
        with b n n' Inr False c c' pv show ?thesis
          by (auto simp: dump_field_def Let_def)
      qed
    qed
  qed
qed

lemma simT_dump_fields:
  assumes D: "simD X F S D"
  shows "simT X F S (dump_fields E D cf rf flds dt)"
proof (induction flds arbitrary: dt)
  case Nil
  show ?case by (simp add: simT_def grows_refl)
next
  case (Cons a flds)
  obtain key raw where a: "a = (key, raw)" by (cases a)
  show ?case
  proof (rule simT_I)
    fix w w' r d v
    assume R: "later_run X F S w w'" and b: "dump_fields E D cf rf (a # flds) dt w = (r, d, v)"
    obtain r1 d1 w1 where f: "dump_field E D cf rf key raw dt w = (r1, d1, w1)"
      by (cases "dump_field E D cf rf key raw dt w")
    from simT_D [OF simT_dump_field [OF D] R f] obtain w1' where
      f': "dump_field E D cf rf key raw dt w' = (r1, d1, w1')"
      and R1: "later_run X F S w1 w1'" and g1: "grows w w1" by blast
    show "\<exists>v'. dump_fields E D cf rf (a # flds) dt w' = (r, d, v')
            \<and> later_run X F S v v' \<and> grows w v"
    proof (cases r1)
      case (Inl e)
      with b a f f' R1 g1 show ?thesis by auto
    next
      case (Inr u)
      with b a f have rec: "dump_fields E D cf rf flds d1 w1 = (r, d, v)" by simp
      from simT_D [OF Cons.IH R1 rec] obtain v' where
        "dump_fields E D cf rf flds d1 w1' = (r, d, v')" "later_run X F S v v'" "grows w1 v"
        by blast
      with Inr a f' g1 show ?thesis by (auto intro: grows_trans)
    qed
  qed
qed

lemma simD_dump_to_dict_body:
  assumes D: "simD X F S D"
  shows "simD X F S (dump_to_dict_body E D cf)"
  unfolding simD_def
proof (intro allI)
  fix h dt rf
  show "simT X F S (dump_to_dict_body E D cf h dt rf)"
  proof (cases "py_dict E h")
    case (Inl e)
    then have "dump_to_dict_body E D cf h dt rf = (\<lambda>w. (Inl e, dt, w))"
      by (simp add: dump_to_dict_body_def fun_eq_iff)
    then show ?thesis by (simp add: simT_ret)
  next
    case (Inr hd)
    then have "dump_to_dict_body E D cf h dt rf = dump_fields E D cf rf (ignore_configs hd) dt"
      by (simp add: dump_to_dict_body_def fun_eq_iff)
    then show ?thesis by (simp add: simT_dump_fields [OF D])
  qed
qed

lemma simD_dump_to_dict: "simD X F S (dump_to_dict depth E cf)"
proof (induction depth)
  case 0
  show ?case by (simp add: simD_def simT_ret)
next
  case (Suc depth)
  from simD_dump_to_dict_body [OF Suc] show ?case by simp
qed

lemma simM_yaml_parse_from_dict: "simM X F S (yaml_parse_from_dict depth E cf h)"
proof (rule simM_I)
  fix w w' r v
  assume R: "later_run X F S w w'" and b: "yaml_parse_from_dict depth E cf h w = (r, v)"
  from simD_dump_to_dict have T: "simT X F S (dump_to_dict depth E cf h [] None)"
    by (simp add: simD_def)
  obtain r1 d1 v1 where dw: "dump_to_dict depth E cf h [] None w = (r1, d1, v1)"
    by (cases "dump_to_dict depth E cf h [] None w")
  from simT_D [OF T R dw] obtain v1' where
    "dump_to_dict depth E cf h [] None w' = (r1, d1, v1')" "later_run X F S v1 v1'" "grows w v1"
    by blast
  with b dw show "\<exists>v'. yaml_parse_from_dict depth E cf h w' = (r, v') \<and> later_run X F S v v'
      \<and> grows w v"
    by (cases r1) (auto simp: yaml_parse_from_dict_def)
qed

lemma simM_yaml_parse_single_file: "simM X F S (yaml_parse_single_file depth E cf f)"
  unfolding yaml_parse_single_file_def
  by (intro simM_bind simM_lift simM_yaml_parse_from_dict)

lemma simM_after_W:
  assumes "simW X F S f" "simM X F S m"
  shows "simM X F S (\<lambda>w. m (f w))"
proof (rule simM_I)
  fix w w' r v
  assume R: "later_run X F S w w'" and b: "m (f w) = (r, v)"
  from simW_D [OF assms(1) R] have R1: "later_run X F S (f w) (f w')" and g1: "grows w (f w)" .
  from simM_D [OF assms(2) R1 b] g1
  show "\<exists>v'. m (f w') = (r, v') \<and> later_run X F S v v' \<and> grows w v"
    by (auto intro: grows_trans)
qed

lemma simM_init_params: "simM X F S (init_params depth E a)"
proof (cases "yaml_dict a")
  case (Some d)
  then show ?thesis
    unfolding init_params_def by (auto intro!: simM_bind simM_lift simM_yaml_parse_from_dict)
next
  case None
  show ?thesis
  proof (cases "yaml_file a")
    case n: None
    with None show ?thesis by (simp add: init_params_def simM_raise)
  next
    case (Some f)
    let ?m = "bindM
                  (liftM (case f of
                            VStr s \<Rightarrow> if \<not> isabs E s
                                      then bindE (resolve_yaml_path E f (configs_folder a))
                                             (\<lambda>r. Inr (VStr r))
                                      else Inr f
                          | _ \<Rightarrow> Inl TypeError))
                  (\<lambda>f'. yaml_parse_single_file depth E (configs_folder a) f')"
    have m: "simM X F S ?m"
      by (intro simM_bind simM_lift simM_yaml_parse_single_file)
    have "init_params depth E a = (\<lambda>w. ?m (file_stack_append f w))"
      using None Some by (simp add: init_params_def)
    with simM_after_W [OF simW_file_stack_append m] show ?thesis by simp
  qed
qed

lemma PlotStyle_init_unfold:
  "PlotStyle_init depth E a w =
     (case input_validate E a of
        Inl e \<Rightarrow> (Inl e, w)
      | Inr u \<Rightarrow>
          (case init_params depth E a w of
             (Inl e, w1) \<Rightarrow> (Inl e, w1)
           | (Inr params, w1) \<Rightarrow>
               (case resolve_marked_for_delete (ctx w1) of
                  Inl e \<Rightarrow> (Inl e, w1)
                | Inr c \<Rightarrow>
                    (let la = snd (apply_localization params (affix c) (language a));
                         lp = fst (apply_localization params (affix c) (language a));
                         w2 = w1\<lparr>ctx := c\<lparr>affix := la\<rparr>\<rparr>
                     in case apply_affixes E lp la of
                          Inl e \<Rightarrow> (Inl e, w2)
                        | Inr decorated \<Rightarrow>
                            if \<not> keep_all_fields a then (Inl TypeError, w2)
                            else (case set_attributes decorated of
                                    Inl e \<Rightarrow> (Inl e, w2)
                                  | Inr u \<Rightarrow> (Inr decorated, w2))))))"
  by (auto simp: PlotStyle_init_def bindM_def liftM_def retM_def raiseM_def Let_def
      split: sum.splits prod.splits)

lemma resolve_marked_for_delete_fields:
  "resolve_marked_for_delete c =
     (case bindE (referenced_fields (field_props c) [])
             (\<lambda>referenced. infer_marked (field_props c) referenced {}) of
        Inl e \<Rightarrow> Inl e
      | Inr marked \<Rightarrow>
          Inr (c\<lparr>marked_for_delete := (marked \<union> explicitly_deleted c) - explicitly_kept c\<rparr>))"
  by (simp add: resolve_marked_for_delete_def bindE_def split: sum.splits)

lemma apply_localization_keys:
  "map fst (snd (apply_localization params registry lang)) = map fst registry"
  by (simp add: apply_localization_def comp_def)

lemma PlotStyle_init_same_result:
  assumes "input_validate E a = Inr u"
    and "init_params depth E a w = (Inr params, w1)"
    and "init_params depth E a w' = (Inr params, w1')"
    and "affix (ctx w1') = affix (ctx w1)"
    and "field_props (ctx w1') = field_props (ctx w1)"
  shows "fst (PlotStyle_init depth E a w') = fst (PlotStyle_init depth E a w)"
  using assms
  by (auto simp: PlotStyle_init_unfold resolve_marked_for_delete_fields Let_def
      split: sum.splits)

lemma PlotStyle_init_leaves:
  assumes "input_validate E a = Inr u"
    and "init_params depth E a w = (r1, w1)"
  shows "field_props (ctx (snd (PlotStyle_init depth E a w))) = field_props (ctx w1)"
    and "file_stack (ctx (snd (PlotStyle_init depth E a w))) = file_stack (ctx w1)"
    and "map fst (affix (ctx (snd (PlotStyle_init depth E a w)))) = map fst (affix (ctx w1))"
  using assms
  by (auto simp: PlotStyle_init_unfold resolve_marked_for_delete_fields Let_def
      apply_localization_keys split: sum.splits)

text \<open>
  A construction from a new context, followed by a second one with the same arguments on
  the context the first one left: both return the same mapping, or raise the same error.
\<close>

lemma second_run_from_new_context:
  "fst (PlotStyle_init depth E a
          (snd (PlotStyle_init depth E a \<lparr>ctx = new_ParseContext, warned = ws\<rparr>)))
     = fst (PlotStyle_init depth E a \<lparr>ctx = new_ParseContext, warned = ws\<rparr>)"
proof (cases "input_validate E a")
  case (Inl e)
  then show ?thesis by (simp add: PlotStyle_init_unfold)
next
  case iv: (Inr u)
  define w0 where "w0 = \<lparr>ctx = new_ParseContext, warned = ws\<rparr>"
  have fresh: "ctx w0 = new_ParseContext" by (simp add: w0_def)
  obtain r1 w1 where ip: "init_params depth E a w0 = (r1, w1)"
    by (cases "init_params depth E a w0")
  define W where "W = snd (PlotStyle_init depth E a w0)"
  have keys: "field_props (ctx W) = field_props (ctx w1)"
    "file_stack (ctx W) = file_stack (ctx w1)"
    "map fst (affix (ctx W)) = map fst (affix (ctx w1))"
    unfolding W_def by (rule PlotStyle_init_leaves [OF iv ip])+
  let ?X = "affix (ctx W)" and ?F = "field_props (ctx w1)" and ?S = "file_stack (ctx w1)"
  from fresh keys have R: "later_run ?X ?F ?S w0 W"
    by (simp add: later_run_def new_ParseContext_def dict_update_def)
  from simM_D [OF simM_init_params R ip] obtain w1' where
    ip': "init_params depth E a W = (r1, w1')" and R1: "later_run ?X ?F ?S w1 w1'" by blast
  from R1 have d: "distinct (map fst (affix (ctx w1)))" "distinct (map fst (field_props (ctx w1)))"
    by (simp_all add: later_run_def)
  from R1 d keys have same: "affix (ctx w1') = affix (ctx w1)"
    "field_props (ctx w1') = field_props (ctx w1)"
    by (simp_all add: later_run_def dict_update_same_keys)
  have "fst (PlotStyle_init depth E a W) = fst (PlotStyle_init depth E a w0)"
  proof (cases r1)
    case (Inl e)
    with iv ip ip' show ?thesis by (simp add: PlotStyle_init_unfold)
  next
    case (Inr params)
    with ip ip' have "init_params depth E a w0 = (Inr params, w1)"
      "init_params depth E a W = (Inr params, w1')" by simp_all
    from PlotStyle_init_same_result [OF iv this same] show ?thesis .
  qed
  then show ?thesis by (simp add: W_def w0_def)
qed

section \<open>Repeated construction\<close>

text \<open>
  Claim C9: constructing a second time with the same inputs gives the same mapping as the
  first time. The constructor's default context is one object shared by every call, and it
  keeps the affix registry, localized in place, from call to call. After one construction
  from a document whose list-valued suffix holds a nested localization table, two further
  constructions from the same plain document \<^verbatim>\<open>{name: []}\<close> with the same language return
  different mappings: each localizes the inherited suffix one level further before
  appending it. (The first two constructions of a process, which start from a new context,
  do agree: \<open>second_run_from_new_context\<close>.)
\<close>

theorem second_identical_run_differs:
  "fst (PlotStyle_init 3 (files_env []) (dict_args plain_doc ''pt'' True)
         (snd (PlotStyle_init 3 (files_env []) (dict_args stale_doc ''pt'' True) new_world)))
     = Inr [(''name'', VList [VDict [(''pt'', VStr ''a'')]])]
   \<and> fst (PlotStyle_init 3 (files_env []) (dict_args plain_doc ''pt'' True)
         (snd (PlotStyle_init 3 (files_env []) (dict_args plain_doc ''pt'' True)
           (snd (PlotStyle_init 3 (files_env []) (dict_args stale_doc ''pt'' True) new_world)))))
     = Inr [(''name'', VList [VStr ''a''])]"
  by code_simp


end
